theory Spec2Isabelle
  imports Complex_Main
begin

section \<open>JavaScript values used by the layout engine\<close>

text \<open>
  Numbers are modelled as reals (no rounding, no NaN); a property that is absent from an
  object (\<open>undefined\<close>) is \<open>None\<close>. The operator \<open>a || b\<close> yields \<open>a\<close> when \<open>a\<close> is
  truthy and \<open>b\<close> otherwise; a number is truthy unless it is \<open>0\<close>, a string unless it is
  empty.
\<close>

definition truthyNum :: "real option \<Rightarrow> bool" where
  "truthyNum a = (case a of None \<Rightarrow> False | Some v \<Rightarrow> v \<noteq> 0)"

definition truthyStr :: "string option \<Rightarrow> bool" where
  "truthyStr a = (case a of None \<Rightarrow> False | Some s \<Rightarrow> s \<noteq> [])"

definition orNum :: "real option \<Rightarrow> real option \<Rightarrow> real option" where
  "orNum a b = (if truthyNum a then a else b)"

definition orNumDefault :: "real option \<Rightarrow> real \<Rightarrow> real" where
  "orNumDefault a d = (case a of None \<Rightarrow> d | Some v \<Rightarrow> if v \<noteq> 0 then v else d)"

definition orStr :: "string option \<Rightarrow> string option \<Rightarrow> string option" where
  "orStr a b = (if truthyStr a then a else b)"

definition orStrDefault :: "string option \<Rightarrow> string \<Rightarrow> string" where
  "orStrDefault a d = (case a of None \<Rightarrow> d | Some s \<Rightarrow> if s \<noteq> [] then s else d)"

text \<open>The remainder operator \<open>a % b\<close> truncates the quotient towards zero, so its result
  carries the sign of the dividend.\<close>

definition mathTrunc :: "real \<Rightarrow> int" where
  "mathTrunc r = (if 0 \<le> r then \<lfloor>r\<rfloor> else - \<lfloor>- r\<rfloor>)"

definition jsRem :: "real \<Rightarrow> real \<Rightarrow> real" where
  "jsRem a b = a - b * of_int (mathTrunc (a / b))"

text \<open>Decimal rendering of an array index inside a template string.\<close>

fun showNat :: "nat \<Rightarrow> string" where
  "showNat n = (if n < 10 then [''0123456789'' ! n]
                else showNat (n div 10) @ [''0123456789'' ! (n mod 10)])"

declare showNat.simps [simp del]

text \<open>\<open>Math.min(...values)\<close>; \<open>None\<close> stands for the \<open>Infinity\<close> returned on no arguments.\<close>

fun mathMin :: "real list \<Rightarrow> real option" where
  "mathMin [] = None"
| "mathMin (v # vs) = (case mathMin vs of None \<Rightarrow> Some v | Some m \<Rightarrow> Some (min v m))"

section \<open>Data model\<close>

text \<open>A record of the layout API, with the field aliases the normalizer reads.\<close>

record raw_panel =
  raw_xCoordinate :: "real option"
  raw_x :: "real option"
  raw_yCoordinate :: "real option"
  raw_y :: "real option"
  raw_planeRotation :: "real option"
  raw_width :: "real option"
  raw_height :: "real option"
  raw_inverterSerialNumber :: "string option"
  raw_id :: "string option"
  raw_ID :: "string option"
  raw_serialNumber :: "string option"
  raw_SerialNumber :: "string option"

text \<open>An entry of \<open>CONFIG.localLayout\<close>, which is also the shape written by the export.\<close>

record layout_panel =
  lay_id :: "string option"
  lay_x :: "real option"
  lay_y :: "real option"
  lay_width :: "real option"
  lay_height :: "real option"
  lay_planeRotation :: "real option"
  lay_inverterSerialNumber :: "string option"
  lay_serialNumber :: "string option"

text \<open>Where a panel object came from: the spread \<open>...panel\<close> keeps the fields of the
  object it was built from beside the canonical ones.\<close>

datatype origin = FromApi raw_panel | FromLocal layout_panel | Synthesized

text \<open>The fields read by \<open>panelsOverlap\<close>, and the canonical panel that extends them.\<close>

record rect =
  posX :: real
  posY :: real
  width :: real
  height :: real

record panel = rect +
  panelId :: string
  serialNumber :: "string option"
  inverterSerialNumber :: "string option"
  planeRotation :: real
  spread :: origin

section \<open>Panel normalizer (\<open>loadPanelLayout\<close>, API branch)\<close>

definition allYCoords :: "raw_panel list \<Rightarrow> real list" where
  "allYCoords panelsArray =
     map (\<lambda>p. orNumDefault (orNum (raw_yCoordinate p) (raw_y p)) 0) panelsArray"

definition yOffset :: "raw_panel list \<Rightarrow> real" where
  "yOffset panelsArray =
     (case mathMin (allYCoords panelsArray) of
        None \<Rightarrow> 50
      | Some minY \<Rightarrow> if minY < 0 then \<bar>minY\<bar> + 50 else 50)"

definition normalizePanel :: "real \<Rightarrow> raw_panel \<Rightarrow> nat \<Rightarrow> panel" where
  "normalizePanel yOff p index =
     (let x = orNumDefault (orNum (raw_xCoordinate p) (raw_x p))
                (real (index mod 10) * 120 + 50);
          y = orNumDefault (orNum (raw_yCoordinate p) (raw_y p))
                (real (index div 10) * 120 + 50) + yOff;
          rotation = jsRem (orNumDefault (raw_planeRotation p) 0) 360;
          baseWidth = orNumDefault (raw_width p) 80;
          baseHeight = orNumDefault (raw_height p) 120;
          (w, h) = (if rotation = 0 \<or> rotation = 180 then (baseWidth, baseHeight)
                    else if rotation = 90 \<or> rotation = 270 then (baseHeight, baseWidth)
                    else (max baseWidth baseHeight, max baseWidth baseHeight))
      in \<lparr> posX = x, posY = y, width = w, height = h,
           panelId = orStrDefault
                       (orStr (raw_inverterSerialNumber p) (orStr (raw_id p) (raw_ID p)))
                       (''panel-'' @ showNat index),
           serialNumber = orStr (raw_inverterSerialNumber p)
                            (orStr (raw_serialNumber p) (raw_SerialNumber p)),
           inverterSerialNumber = raw_inverterSerialNumber p,
           planeRotation = rotation,
           spread = FromApi p \<rparr>)"

definition normalizePanels :: "raw_panel list \<Rightarrow> panel list" where
  "normalizePanels panelsArray =
     map (\<lambda>(p, index). normalizePanel (yOffset panelsArray) p index)
         (zip panelsArray [0..<length panelsArray])"

section \<open>Default synthesis (\<open>createDefaultPanels\<close>)\<close>

definition defaultPanel :: "nat \<Rightarrow> panel" where
  "defaultPanel i =
     (let baseWidth = 80; baseHeight = 120; spacingX = 20; spacingY = 20; cols = 4;
          col = i mod cols;
          row = i div cols;
          rotation = (if i mod 2 = 0 then 0 else 90);
          (w, h) = (if rotation = 0 \<or> rotation = 180 then (baseWidth, baseHeight)
                    else (baseHeight, baseWidth))
      in \<lparr> posX = 50 + real col * (max w baseHeight + spacingX),
           posY = 50 + real row * (max h baseHeight + spacingY),
           width = w, height = h,
           panelId = ''panel-'' @ showNat i,
           serialNumber = Some (''SN-'' @ showNat i),
           inverterSerialNumber = None,
           planeRotation = rotation,
           spread = Synthesized \<rparr>)"

definition createDefaultPanels :: "panel list" where
  "createDefaultPanels = map defaultPanel [0..<12]"

section \<open>Overlap test and overlap resolver\<close>

definition panelsOverlap :: "'a rect_scheme \<Rightarrow> 'b rect_scheme \<Rightarrow> bool" where
  "panelsOverlap panel1 panel2 =
     (\<not> (posX panel1 + width panel1 \<le> posX panel2 \<or>
         posX panel2 + width panel2 \<le> posX panel1 \<or>
         posY panel1 + height panel1 \<le> posY panel2 \<or>
         posY panel2 + height panel2 \<le> posY panel1))"

text \<open>The body executed for an overlapping pair: both panels are displaced along the
  axis of the smaller overlap, the one moving towards the origin being clamped at 0.\<close>

definition pushApart :: "panel \<Rightarrow> panel \<Rightarrow> panel \<times> panel" where
  "pushApart panel1 panel2 =
     (let padding = 10;
          overlapX = min (posX panel1 + width panel1 - posX panel2)
                         (posX panel2 + width panel2 - posX panel1);
          overlapY = min (posY panel1 + height panel1 - posY panel2)
                         (posY panel2 + height panel2 - posY panel1)
      in if overlapX < overlapY then
           (let moveAmount = (overlapX + padding) / 2
            in if posX panel1 < posX panel2
               then (panel1\<lparr>posX := max 0 (posX panel1 - moveAmount)\<rparr>,
                     panel2\<lparr>posX := posX panel2 + moveAmount\<rparr>)
               else (panel1\<lparr>posX := posX panel1 + moveAmount\<rparr>,
                     panel2\<lparr>posX := max 0 (posX panel2 - moveAmount)\<rparr>))
         else
           (let moveAmount = (overlapY + padding) / 2
            in if posY panel1 < posY panel2
               then (panel1\<lparr>posY := max 0 (posY panel1 - moveAmount)\<rparr>,
                     panel2\<lparr>posY := posY panel2 + moveAmount\<rparr>)
               else (panel1\<lparr>posY := posY panel1 + moveAmount\<rparr>,
                     panel2\<lparr>posY := max 0 (posY panel2 - moveAmount)\<rparr>)))"

text \<open>One evaluation of the inner loop body for the index pair \<open>(i, j)\<close>, on the panel
  array and the flag \<open>moved\<close>.\<close>

definition resolvePair :: "nat \<Rightarrow> nat \<Rightarrow> panel list \<times> bool \<Rightarrow> panel list \<times> bool" where
  "resolvePair i j st =
     (let panels = fst st; panel1 = panels ! i; panel2 = panels ! j
      in if panelsOverlap panel1 panel2
         then (let (p1, p2) = pushApart panel1 panel2
               in (panels[i := p1, j := p2], True))
         else st)"

text \<open>The loops \<open>for j = i + 1 .. length - 1\<close> and \<open>for i = 0 .. length - 1\<close>; the
  length of the array never changes.\<close>

definition innerLoop :: "nat \<Rightarrow> panel list \<times> bool \<Rightarrow> panel list \<times> bool" where
  "innerLoop i st = fold (resolvePair i) [Suc i..<length (fst st)] st"

definition resolvePass :: "panel list \<Rightarrow> panel list \<times> bool" where
  "resolvePass panels = fold innerLoop [0..<length panels] (panels, False)"

definition maxIterations :: nat where
  "maxIterations = 100"

text \<open>The loop \<open>while (moved && iterations < maxIterations)\<close>; the result keeps the two
  local variables beside the array, since they tell why the loop stopped.\<close>

function resolveLoop :: "bool \<Rightarrow> nat \<Rightarrow> panel list \<Rightarrow> bool \<times> nat \<times> panel list" where
  "resolveLoop moved iterations panels =
     (if moved \<and> iterations < maxIterations
      then (let (panels', moved') = resolvePass panels
            in resolveLoop moved' (Suc iterations) panels')
      else (moved, iterations, panels))"
  by pat_completeness auto
termination
  by (relation "measure (\<lambda>(moved, iterations, panels). maxIterations - iterations)") auto

declare resolveLoop.simps [simp del]

definition resolveOverlaps :: "panel list \<Rightarrow> panel list" where
  "resolveOverlaps panels = snd (snd (resolveLoop True 0 panels))"

section \<open>The monitor and layout loading (\<open>loadPanelLayout\<close>)\<close>

text \<open>The fields of \<open>SolarPanelMonitor\<close> the layout engine uses. \<open>dragPanel\<close> is a
  reference to one of the objects of \<open>panels\<close>; it is modelled as that object's index.\<close>

record monitor =
  panels :: "panel list"
  maxPower :: real
  isDragging :: bool
  dragPanel :: "nat option"
  dragOffset :: "real \<times> real"
  editPlacementEnabled :: bool

text \<open>The state set up by the constructor.\<close>

definition initialMonitor :: monitor where
  "initialMonitor = \<lparr> panels = [], maxPower = 0, isDragging = False, dragPanel = None,
     dragOffset = (0, 0), editPlacementEnabled = False \<rparr>"

text \<open>The shapes of layout payload the loader recognises, in the order it tests them, and
  the outcome of the fetch (a transport or HTTP failure throws).\<close>

datatype payload =
    ResultPanels "raw_panel list"
  | DirectArray "raw_panel list"
  | PanelsField "raw_panel list"
  | PanelsCapField "raw_panel list"
  | Unrecognised

datatype fetched = FetchFailed | Fetched payload

fun panelsArrayOf :: "payload \<Rightarrow> raw_panel list" where
  "panelsArrayOf (ResultPanels ps) = ps"
| "panelsArrayOf (DirectArray ps) = ps"
| "panelsArrayOf (PanelsField ps) = ps"
| "panelsArrayOf (PanelsCapField ps) = ps"
| "panelsArrayOf Unrecognised = []"

definition loadLocalPanel :: "layout_panel \<Rightarrow> nat \<Rightarrow> panel" where
  "loadLocalPanel p index =
     \<lparr> posX = orNumDefault (lay_x p) 0,
       posY = orNumDefault (lay_y p) 0,
       width = orNumDefault (lay_width p) 80,
       height = orNumDefault (lay_height p) 120,
       panelId = orStrDefault (orStr (lay_id p) (lay_inverterSerialNumber p))
                   (''panel-'' @ showNat index),
       serialNumber = orStr (lay_serialNumber p) (lay_inverterSerialNumber p),
       inverterSerialNumber = lay_inverterSerialNumber p,
       planeRotation = orNumDefault (lay_planeRotation p) 0,
       spread = FromLocal p \<rparr>"

definition loadLocalLayout :: "layout_panel list \<Rightarrow> panel list" where
  "loadLocalLayout localLayout =
     map (\<lambda>(p, index). loadLocalPanel p index) (zip localLayout [0..<length localLayout])"

definition defaultMaxPower :: "monitor \<Rightarrow> monitor" where
  "defaultMaxPower m = (if maxPower m = 0 then m\<lparr>maxPower := 400\<rparr> else m)"

text \<open>\<open>loadPanelLayout\<close>, given \<open>CONFIG.localLayout\<close> (\<open>None\<close> when it is not set) and
  the outcome of the fetch, which is consulted only when no local layout is configured.
  The \<open>catch\<close> branch replaces the panels by the defaults.\<close>

definition loadPanelLayout :: "layout_panel list option \<Rightarrow> fetched \<Rightarrow> monitor \<Rightarrow> monitor" where
  "loadPanelLayout localLayout response m =
     (let finish = (\<lambda>ps. defaultMaxPower
                      (m\<lparr>panels := resolveOverlaps (if ps = [] then createDefaultPanels else ps)\<rparr>))
      in case localLayout of
           Some (l # ls) \<Rightarrow> finish (loadLocalLayout (l # ls))
         | _ \<Rightarrow> (case response of
                   FetchFailed \<Rightarrow>
                     defaultMaxPower (m\<lparr>panels := resolveOverlaps createDefaultPanels\<rparr>)
                 | Fetched data \<Rightarrow> finish (normalizePanels (panelsArrayOf data))))"

section \<open>Drag placement (\<open>handleMouseMove\<close>)\<close>

definition handleMouseUp :: "monitor \<Rightarrow> monitor" where
  "handleMouseUp m = (if isDragging m then m\<lparr>isDragging := False, dragPanel := None\<rparr> else m)"

text \<open>The body of the loop over \<open>this.panels\<close> for one panel other than the dragged
  one: the candidate position \<open>(x, y)\<close> is pushed out of that panel when it overlaps it.\<close>

definition avoidPanel :: "panel \<Rightarrow> panel \<Rightarrow> real \<times> real \<Rightarrow> real \<times> real" where
  "avoidPanel dragged other pos =
     (let padding = 5; x = fst pos; y = snd pos
      in if panelsOverlap
              \<lparr>posX = x, posY = y, width = width dragged, height = height dragged\<rparr> other
         then (let overlapX = min (x + width dragged - posX other)
                                  (posX other + width other - x);
                   overlapY = min (y + height dragged - posY other)
                                  (posY other + height other - y)
               in if overlapX < overlapY
                  then (if x < posX other
                        then (posX other - width dragged - padding, y)
                        else (posX other + width other + padding, y))
                  else (if y < posY other
                        then (x, posY other - height dragged - padding)
                        else (x, posY other + height other + padding)))
         else pos)"

definition dragLoopStep :: "nat \<Rightarrow> panel list \<Rightarrow> nat \<Rightarrow> real \<times> real \<Rightarrow> real \<times> real" where
  "dragLoopStep d ps k pos = (if k \<noteq> d then avoidPanel (ps ! d) (ps ! k) pos else pos)"

definition dragLoop :: "nat \<Rightarrow> panel list \<Rightarrow> nat list \<Rightarrow> real \<times> real \<Rightarrow> real \<times> real" where
  "dragLoop d ps ks pos = fold (dragLoopStep d ps) ks pos"

text \<open>The candidate position before the loop: pointer position (relative to the canvas)
  minus the captured offset, clamped at 0.\<close>

definition dragStart :: "monitor \<Rightarrow> real \<times> real \<Rightarrow> real \<times> real" where
  "dragStart m pointer =
     (max 0 (fst pointer - fst (dragOffset m)), max 0 (snd pointer - snd (dragOffset m)))"

text \<open>\<open>handleMouseMove\<close> for a pointer at \<open>(clientX - rect.left, clientY - rect.top)\<close>.
  An index outside the array denotes no panel object; the state is then left as it is.\<close>

definition handleMouseMove :: "monitor \<Rightarrow> real \<times> real \<Rightarrow> monitor" where
  "handleMouseMove m pointer =
     (if isDragging m \<and> \<not> editPlacementEnabled m then handleMouseUp m
      else case dragPanel m of
             None \<Rightarrow> m
           | Some d \<Rightarrow>
               if isDragging m \<and> d < length (panels m)
               then (let (x, y) = dragLoop d (panels m) [0..<length (panels m)]
                                    (dragStart m pointer)
                     in m\<lparr>panels := (panels m)
                            [d := (panels m ! d)\<lparr>posX := max 0 x, posY := max 0 y\<rparr>]\<rparr>)
               else m)"

section \<open>Layout export (\<open>exportPanelLayout\<close>)\<close>



section \<open>Power-to-colour mapper\<close>

text \<open>The function returns a CSS colour string: either the literal \<open>#000000\<close> or
  \<open>rgb(r, g, b)\<close>. The two forms are kept apart; \<open>greenChannel\<close> reads the green
  component either form denotes.\<close>

datatype colour = HexBlack | Rgb int int int

fun greenChannel :: "colour \<Rightarrow> int" where
  "greenChannel HexBlack = 0"
| "greenChannel (Rgb r g b) = g"

definition getColorForPower :: "monitor \<Rightarrow> real \<Rightarrow> colour" where
  "getColorForPower m pwr =
     (if maxPower m = 0 then HexBlack
      else if pwr = 0 then HexBlack
      else let ratio = min (pwr / maxPower m) 1;
               minGreen = 30;
               maxGreen = 255;
               greenRange = maxGreen - minGreen;
               g = \<lfloor>minGreen + greenRange * ratio\<rfloor>
           in Rgb 0 g 0)"

section \<open>Auxiliary notions for the statements\<close>

text \<open>A panel with its position erased: what the resolver and a drag must leave alone.\<close>

definition unplaced :: "panel \<Rightarrow> panel" where
  "unplaced p = p\<lparr>posX := 0, posY := 0\<rparr>"

text \<open>No two panels at distinct indices overlap.\<close>

definition pairwiseApart :: "panel list \<Rightarrow> bool" where
  "pairwiseApart ps =
     (\<forall>i<length ps. \<forall>j<length ps. i \<noteq> j \<longrightarrow> \<not> panelsOverlap (ps ! i) (ps ! j))"

text \<open>A synthesized panel with given identity, position and size, for worked instances.\<close>

definition mkPanel :: "string \<Rightarrow> real \<Rightarrow> real \<Rightarrow> real \<Rightarrow> real \<Rightarrow> panel" where
  "mkPanel i x y w h = \<lparr>posX = x, posY = y, width = w, height = h, panelId = i, serialNumber = None,
     inverterSerialNumber = None, planeRotation = 0, spread = Synthesized\<rparr>"


text \<open>From one panel array to another of the same length, no coordinate of any panel
  goes from non-negative to negative.\<close>

definition keepsNonNegative :: "panel list \<Rightarrow> panel list \<Rightarrow> bool" where
  "keepsNonNegative ps qs =
     (length qs = length ps \<and>
      (\<forall>i<length ps. (0 \<le> posX (ps ! i) \<longrightarrow> 0 \<le> posX (qs ! i)) \<and>
                      (0 \<le> posY (ps ! i) \<longrightarrow> 0 \<le> posY (qs ! i))))"

text \<open>What the export and the local-layout loader rely on: there is a panel, and each panel
  has a non-empty id and non-zero dimensions.\<close>

definition exportable :: "panel list \<Rightarrow> bool" where
  "exportable ps = (ps \<noteq> [] \<and> (\<forall>p \<in> set ps. panelId p \<noteq> [] \<and> width p \<noteq> 0 \<and> height p \<noteq> 0))"

text \<open>A record of the layout API without any field, and the record of the scenario
  \<open>{xCoordinate: -100, yCoordinate: -50, planeRotation: 90, inverterSerialNumber: "A1"}\<close>.\<close>

definition rawEmpty :: raw_panel where
  "rawEmpty = \<lparr> raw_xCoordinate = None, raw_x = None, raw_yCoordinate = None, raw_y = None,
     raw_planeRotation = None, raw_width = None, raw_height = None,
     raw_inverterSerialNumber = None, raw_id = None, raw_ID = None,
     raw_serialNumber = None, raw_SerialNumber = None \<rparr>"

definition scenarioRecord :: raw_panel where
  "scenarioRecord = rawEmpty\<lparr> raw_xCoordinate := Some (- 100), raw_yCoordinate := Some (- 50),
     raw_planeRotation := Some 90, raw_inverterSerialNumber := Some ''A1'' \<rparr>"

text \<open>Two overlapping panels left of the origin.\<close>

definition negativeScene :: "panel list" where
  "negativeScene = [mkPanel ''a'' (- 100) 50 80 120, mkPanel ''b'' (- 90) 60 80 120]"

text \<open>Two drag gestures in progress on layouts loaded from the API: the panel grabbed is
  the one with index \<open>dragPanel\<close>, edit placement is enabled, and the pointer offset
  inside the panel is 0.\<close>

definition twoPanelPayload :: payload where
  "twoPanelPayload = DirectArray
     [rawEmpty\<lparr>raw_xCoordinate := Some 2, raw_yCoordinate := Some 100\<rparr>,
      rawEmpty\<lparr>raw_xCoordinate := Some 300, raw_yCoordinate := Some 100\<rparr>]"

definition dragScene :: monitor where
  "dragScene = (loadPanelLayout None (Fetched twoPanelPayload) initialMonitor)
     \<lparr> isDragging := True, dragPanel := Some 1, editPlacementEnabled := True \<rparr>"

definition threePanelPayload :: payload where
  "threePanelPayload = DirectArray
     [rawEmpty\<lparr>raw_xCoordinate := Some 400, raw_yCoordinate := Some 150\<rparr>,
      rawEmpty\<lparr>raw_xCoordinate := Some 100, raw_yCoordinate := Some 150\<rparr>,
      rawEmpty\<lparr>raw_xCoordinate := Some 1, raw_yCoordinate := Some 150\<rparr>]"

definition dragScene3 :: monitor where
  "dragScene3 = (loadPanelLayout None (Fetched threePanelPayload) initialMonitor)
     \<lparr> isDragging := True, dragPanel := Some 0, editPlacementEnabled := True \<rparr>"

section \<open>Properties of the colour mapper\<close>

text \<open>
  Claim C6. With a positive \<open>maxPower\<close>: power 0 gives black; power \<open>maxPower\<close> gives
  green 255 with red and blue 0; every non-zero power gives
  \<open>rgb(0, floor(30 + (255 - 30) * min(power / maxPower, 1)), 0)\<close>; and the green channel
  does not decrease from \<open>p1\<close> to \<open>p2\<close> when \<open>0 \<le> p1 \<le> p2\<close>.
\<close>

theorem getColorForPower_scale:
  "0 < maxPower m \<Longrightarrow>
     getColorForPower m 0 = HexBlack \<and>
     getColorForPower m (maxPower m) = Rgb 0 255 0 \<and>
     (\<forall>p. p \<noteq> 0 \<longrightarrow>
        getColorForPower m p = Rgb 0 \<lfloor>30 + (255 - 30) * min (p / maxPower m) 1\<rfloor> 0) \<and>
     (\<forall>p1 p2. 0 \<le> p1 \<and> p1 \<le> p2 \<longrightarrow>
        greenChannel (getColorForPower m p1) \<le> greenChannel (getColorForPower m p2))"
proof (intro conjI allI impI)
  assume mp: "0 < maxPower m"
  show "getColorForPower m 0 = HexBlack"
    using mp by (simp add: getColorForPower_def)
  show "getColorForPower m (maxPower m) = Rgb 0 255 0"
    using mp by (simp add: getColorForPower_def Let_def)
  show "getColorForPower m p = Rgb 0 \<lfloor>30 + (255 - 30) * min (p / maxPower m) 1\<rfloor> 0"
    if "p \<noteq> 0" for p
    using mp that by (simp add: getColorForPower_def Let_def)
  show "greenChannel (getColorForPower m p1) \<le> greenChannel (getColorForPower m p2)"
    if h: "0 \<le> p1 \<and> p1 \<le> p2" for p1 p2
  proof (cases "p1 = 0")
    case True
    have "0 \<le> p2 / maxPower m" using h mp by simp
    then have "(0::real) \<le> 30 + 225 * min (p2 / maxPower m) 1" by simp
    then have "0 \<le> \<lfloor>30 + 225 * min (p2 / maxPower m) 1\<rfloor>" by (simp only: zero_le_floor)
    then show ?thesis using True mp by (simp add: getColorForPower_def Let_def)
  next
    case False
    then have pos: "0 < p1" "0 < p2" using h by auto
    have "p1 / maxPower m \<le> p2 / maxPower m" using h mp by (simp add: divide_right_mono)
    then have "min (p1 / maxPower m) 1 \<le> min (p2 / maxPower m) 1"
      by (simp add: min_le_iff_disj)
    then have "30 + 225 * min (p1 / maxPower m) 1 \<le> 30 + 225 * min (p2 / maxPower m) 1"
      by simp
    then have "\<lfloor>30 + 225 * min (p1 / maxPower m) 1\<rfloor>
                 \<le> \<lfloor>30 + 225 * min (p2 / maxPower m) 1\<rfloor>"
      by (rule floor_mono)
    then show ?thesis using pos mp by (simp add: getColorForPower_def Let_def)
  qed
qed

theorem getColorForPower_scale_witness:
  "0 < maxPower (loadPanelLayout None FetchFailed initialMonitor) \<and>
   maxPower (loadPanelLayout None FetchFailed initialMonitor) = 400 \<and>
   getColorForPower (loadPanelLayout None FetchFailed initialMonitor) 0 = HexBlack \<and>
   getColorForPower (loadPanelLayout None FetchFailed initialMonitor) 400 = Rgb 0 255 0 \<and>
   getColorForPower (loadPanelLayout None FetchFailed initialMonitor) 100 = Rgb 0 86 0 \<and>
   greenChannel (getColorForPower (loadPanelLayout None FetchFailed initialMonitor) 100)
     \<le> greenChannel (getColorForPower (loadPanelLayout None FetchFailed initialMonitor) 200)"
proof -
  have mx: "maxPower (loadPanelLayout None FetchFailed initialMonitor) = 400"
    by (simp add: loadPanelLayout_def defaultMaxPower_def initialMonitor_def)
  show ?thesis
    using getColorForPower_scale [of "loadPanelLayout None FetchFailed initialMonitor"]
    by (simp add: mx)
qed

section \<open>Properties of the overlap resolver\<close>

subsection \<open>Generic facts\<close>

lemma fold_invariant:
  "(\<And>x s. x \<in> set xs \<Longrightarrow> P s \<Longrightarrow> P (f x s)) \<Longrightarrow> P s \<Longrightarrow> P (fold f xs s)"
  by (induction xs arbitrary: s) auto

lemma map_update_same:
  assumes "f v = f (xs ! i)"
  shows "map f (xs[i := v]) = map f xs"
proof (cases "i < length xs")
  case True
  then have "(map f xs)[i := f v] = map f xs"
    using assms by (simp add: list_update_same_conv)
  then show ?thesis by (simp add: map_update)
next
  case False
  then show ?thesis by (simp add: not_less list_update_beyond)
qed

lemma panelsOverlap_sym: "panelsOverlap a b = panelsOverlap b a"
  by (auto simp: panelsOverlap_def)

subsection \<open>Frame of the resolver\<close>

lemma unplaced_pushApart:
  "pushApart a b = (a', b') \<Longrightarrow> unplaced a' = unplaced a \<and> unplaced b' = unplaced b"
  by (auto simp: pushApart_def unplaced_def Let_def split: if_splits)

lemma resolvePair_unplaced:
  "map unplaced (fst (resolvePair i j st)) = map unplaced (fst st)"
proof (cases "panelsOverlap (fst st ! i) (fst st ! j)")
  case False
  then show ?thesis by (simp add: resolvePair_def Let_def)
next
  case True
  obtain a' b' where pa: "pushApart (fst st ! i) (fst st ! j) = (a', b')"
    by (cases "pushApart (fst st ! i) (fst st ! j)")
  have ua: "unplaced a' = unplaced (fst st ! i)" and ub: "unplaced b' = unplaced (fst st ! j)"
    using unplaced_pushApart [OF pa] by simp_all
  have r: "fst (resolvePair i j st) = (fst st)[i := a', j := b']"
    using True pa by (simp add: resolvePair_def Let_def)
  show ?thesis
  proof (cases "i = j")
    case True
    then show ?thesis using r ub by (simp add: map_update_same)
  next
    case False
    have "map unplaced ((fst st)[i := a', j := b']) = map unplaced ((fst st)[i := a'])"
      by (rule map_update_same) (use False ub in simp)
    also have "\<dots> = map unplaced (fst st)"
      by (rule map_update_same) (rule ua)
    finally show ?thesis using r by simp
  qed
qed

lemma innerLoop_unplaced: "map unplaced (fst (innerLoop i st)) = map unplaced (fst st)"
  unfolding innerLoop_def
  by (rule fold_invariant [where P = "\<lambda>s. map unplaced (fst s) = map unplaced (fst st)"])
     (simp_all add: resolvePair_unplaced)

lemma resolvePass_unplaced: "map unplaced (fst (resolvePass ps)) = map unplaced ps"
  unfolding resolvePass_def
  by (rule fold_invariant [where P = "\<lambda>s. map unplaced (fst s) = map unplaced ps"])
     (simp_all add: innerLoop_unplaced)

lemma resolveLoop_unplaced:
  "map unplaced (snd (snd (resolveLoop moved its ps))) = map unplaced ps"
proof (induction moved its ps rule: resolveLoop.induct)
  case (1 moved iterations ps)
  show ?case
  proof (cases "moved \<and> iterations < maxIterations")
    case False
    then show ?thesis by (subst resolveLoop.simps) auto
  next
    case True
    obtain ps1 m1 where rp: "resolvePass ps = (ps1, m1)" by (cases "resolvePass ps")
    have "map unplaced (snd (snd (resolveLoop m1 (Suc iterations) ps1))) = map unplaced ps1"
      using "1.IH" [OF True rp [symmetric] refl] .
    moreover have "map unplaced ps1 = map unplaced ps"
      using resolvePass_unplaced [of ps] rp by simp
    moreover have "resolveLoop moved iterations ps = resolveLoop m1 (Suc iterations) ps1"
      using True rp by (subst resolveLoop.simps) simp
    ultimately show ?thesis by simp
  qed
qed

lemma resolveOverlaps_unplaced: "map unplaced (resolveOverlaps ps) = map unplaced ps"
  by (simp add: resolveOverlaps_def resolveLoop_unplaced)

lemma unplaced_eq_fields:
  "unplaced p = unplaced q \<Longrightarrow>
     panelId p = panelId q \<and> serialNumber p = serialNumber q \<and>
     inverterSerialNumber p = inverterSerialNumber q \<and> width p = width q \<and>
     height p = height q \<and> planeRotation p = planeRotation q \<and> spread p = spread q"
  by (cases p, cases q) (simp add: unplaced_def)

text \<open>
  Claim C10. \<open>resolveOverlaps\<close> changes positions only: the array keeps its length, and
  every panel keeps its id, serialNumber, inverterSerialNumber, width, height,
  planeRotation and the fields carried over from the object it was built from.
\<close>

theorem resolveOverlaps_frame:
  "length (resolveOverlaps ps) = length ps \<and>
   (\<forall>i<length ps.
      panelId (resolveOverlaps ps ! i) = panelId (ps ! i) \<and>
      serialNumber (resolveOverlaps ps ! i) = serialNumber (ps ! i) \<and>
      inverterSerialNumber (resolveOverlaps ps ! i) = inverterSerialNumber (ps ! i) \<and>
      width (resolveOverlaps ps ! i) = width (ps ! i) \<and>
      height (resolveOverlaps ps ! i) = height (ps ! i) \<and>
      planeRotation (resolveOverlaps ps ! i) = planeRotation (ps ! i) \<and>
      spread (resolveOverlaps ps ! i) = spread (ps ! i))"
proof -
  have len: "length (resolveOverlaps ps) = length ps"
    using resolveOverlaps_unplaced [of ps] by (metis length_map)
  have "unplaced (resolveOverlaps ps ! i) = unplaced (ps ! i)" if "i < length ps" for i
    using resolveOverlaps_unplaced [of ps] that len by (metis nth_map)
  then show ?thesis using len unplaced_eq_fields by blast
qed

theorem resolveOverlaps_frame_witness:
  "(0::nat) < length [mkPanel ''a'' 0 0 80 120, mkPanel ''b'' 70 0 80 120] \<and>
   length (resolveOverlaps [mkPanel ''a'' 0 0 80 120, mkPanel ''b'' 70 0 80 120]) = 2 \<and>
   panelId (resolveOverlaps [mkPanel ''a'' 0 0 80 120, mkPanel ''b'' 70 0 80 120] ! 0) = ''a'' \<and>
   width (resolveOverlaps [mkPanel ''a'' 0 0 80 120, mkPanel ''b'' 70 0 80 120] ! 0) = 80 \<and>
   height (resolveOverlaps [mkPanel ''a'' 0 0 80 120, mkPanel ''b'' 70 0 80 120] ! 0) = 120 \<and>
   planeRotation (resolveOverlaps [mkPanel ''a'' 0 0 80 120, mkPanel ''b'' 70 0 80 120] ! 0) = 0"
  using resolveOverlaps_frame [of "[mkPanel ''a'' 0 0 80 120, mkPanel ''b'' 70 0 80 120]"]
  by (simp add: mkPanel_def)

subsection \<open>A pass without displacement\<close>

lemma resolvePair_unmoved:
  assumes "\<not> snd (resolvePair i j st)"
  shows "resolvePair i j st = st \<and> \<not> snd st \<and> \<not> panelsOverlap (fst st ! i) (fst st ! j)"
  using assms by (auto simp: resolvePair_def Let_def split: if_splits prod.splits)

lemma fold_resolvePair_unmoved:
  "\<not> snd (fold (resolvePair i) js st) \<Longrightarrow>
     fold (resolvePair i) js st = st \<and> \<not> snd st \<and>
     (\<forall>j\<in>set js. \<not> panelsOverlap (fst st ! i) (fst st ! j))"
proof (induction js arbitrary: st)
  case Nil
  then show ?case by simp
next
  case (Cons j js)
  from Cons.prems have "\<not> snd (fold (resolvePair i) js (resolvePair i j st))" by simp
  from Cons.IH [OF this]
  have a: "fold (resolvePair i) js (resolvePair i j st) = resolvePair i j st"
    and b: "\<not> snd (resolvePair i j st)"
    and c: "\<forall>k\<in>set js. \<not> panelsOverlap (fst (resolvePair i j st) ! i) (fst (resolvePair i j st) ! k)"
    by simp_all
  from resolvePair_unmoved [OF b]
  have d: "resolvePair i j st = st" "\<not> snd st" "\<not> panelsOverlap (fst st ! i) (fst st ! j)"
    by simp_all
  show ?case using a c d by simp
qed

lemma innerLoop_unmoved:
  assumes "\<not> snd (innerLoop i st)"
  shows "innerLoop i st = st \<and> \<not> snd st \<and>
         (\<forall>j. i < j \<and> j < length (fst st) \<longrightarrow> \<not> panelsOverlap (fst st ! i) (fst st ! j))"
  using fold_resolvePair_unmoved [of i "[Suc i..<length (fst st)]" st] assms
  by (simp add: innerLoop_def)

lemma fold_innerLoop_unmoved:
  "\<not> snd (fold innerLoop is st) \<Longrightarrow>
     fold innerLoop is st = st \<and> \<not> snd st \<and>
     (\<forall>i\<in>set is. \<forall>j. i < j \<and> j < length (fst st) \<longrightarrow>
        \<not> panelsOverlap (fst st ! i) (fst st ! j))"
proof (induction "is" arbitrary: st)
  case Nil
  then show ?case by simp
next
  case (Cons i "is")
  from Cons.prems have "\<not> snd (fold innerLoop is (innerLoop i st))" by simp
  from Cons.IH [OF this]
  have a: "fold innerLoop is (innerLoop i st) = innerLoop i st"
    and b: "\<not> snd (innerLoop i st)"
    and c: "\<forall>k\<in>set is. \<forall>j. k < j \<and> j < length (fst (innerLoop i st)) \<longrightarrow>
              \<not> panelsOverlap (fst (innerLoop i st) ! k) (fst (innerLoop i st) ! j)"
    by simp_all
  from innerLoop_unmoved [OF b]
  have d: "innerLoop i st = st" "\<not> snd st"
    "\<forall>j. i < j \<and> j < length (fst st) \<longrightarrow> \<not> panelsOverlap (fst st ! i) (fst st ! j)"
    by simp_all
  show ?case using a c d by simp
qed

lemma resolvePass_unmoved:
  assumes "\<not> snd (resolvePass ps)"
  shows "fst (resolvePass ps) = ps \<and> pairwiseApart ps"
proof -
  from fold_innerLoop_unmoved [of "[0..<length ps]" "(ps, False)"] assms
  have same: "resolvePass ps = (ps, False)"
    and apart: "\<forall>i<length ps. \<forall>j. i < j \<and> j < length ps \<longrightarrow> \<not> panelsOverlap (ps ! i) (ps ! j)"
    by (simp_all add: resolvePass_def)
  have "\<not> panelsOverlap (ps ! i) (ps ! j)" if "i < length ps" "j < length ps" "i \<noteq> j" for i j
  proof (cases "i < j")
    case True
    then show ?thesis using apart that by blast
  next
    case False
    then have "j < i" using that by simp
    then have "\<not> panelsOverlap (ps ! j) (ps ! i)" using apart that by blast
    then show ?thesis by (simp add: panelsOverlap_sym [of "ps ! i"])
  qed
  then show ?thesis using same by (simp add: pairwiseApart_def)
qed

subsection \<open>A pass over panels that are apart\<close>

lemma fold_resolvePair_apart:
  "\<forall>j\<in>set js. \<not> panelsOverlap (fst st ! i) (fst st ! j) \<Longrightarrow> fold (resolvePair i) js st = st"
  by (induction js) (simp_all add: resolvePair_def Let_def)

lemma fold_innerLoop_apart:
  "\<forall>i\<in>set is. \<forall>j. i < j \<and> j < length (fst st) \<longrightarrow> \<not> panelsOverlap (fst st ! i) (fst st ! j)
     \<Longrightarrow> fold innerLoop is st = st"
  by (induction "is") (simp_all add: innerLoop_def fold_resolvePair_apart)

lemma resolvePass_apart:
  assumes "pairwiseApart ps"
  shows "resolvePass ps = (ps, False)"
  unfolding resolvePass_def
  by (rule fold_innerLoop_apart) (use assms in \<open>auto simp: pairwiseApart_def\<close>)

lemma resolveLoop_apart:
  assumes "pairwiseApart ps"
  shows "resolveLoop True 0 ps = (False, 1, ps)"
proof -
  have "resolveLoop True 0 ps = resolveLoop False (Suc 0) ps"
    by (subst resolveLoop.simps) (simp add: resolvePass_apart [OF assms] maxIterations_def)
  also have "\<dots> = (False, 1, ps)"
    by (subst resolveLoop.simps) simp
  finally show ?thesis .
qed

lemma resolveOverlaps_apart: "pairwiseApart ps \<Longrightarrow> resolveOverlaps ps = ps"
  by (simp add: resolveOverlaps_def resolveLoop_apart)

subsection \<open>Exit of the resolver loop\<close>

lemma resolveLoop_exit:
  "resolveLoop moved its ps = (moved', its', ps') \<Longrightarrow> \<not> moved' \<or> maxIterations \<le> its'"
proof (induction moved its ps rule: resolveLoop.induct)
  case (1 moved iterations ps)
  show ?case
  proof (cases "moved \<and> iterations < maxIterations")
    case False
    then have "resolveLoop moved iterations ps = (moved, iterations, ps)"
      by (subst resolveLoop.simps) auto
    then show ?thesis using "1.prems" False by auto
  next
    case True
    obtain ps1 m1 where rp: "resolvePass ps = (ps1, m1)" by (cases "resolvePass ps")
    have "resolveLoop moved iterations ps = resolveLoop m1 (Suc iterations) ps1"
      using True rp by (subst resolveLoop.simps) simp
    then show ?thesis using "1.IH" [OF True rp [symmetric] refl] "1.prems" by simp
  qed
qed

lemma resolveLoop_unmoved:
  "resolveLoop moved its ps = (moved', its', ps') \<Longrightarrow> moved \<and> its < maxIterations \<Longrightarrow>
     \<not> moved' \<Longrightarrow> pairwiseApart ps'"
proof (induction moved its ps rule: resolveLoop.induct)
  case (1 moved iterations ps)
  obtain ps1 m1 where rp: "resolvePass ps = (ps1, m1)" by (cases "resolvePass ps")
  have step: "resolveLoop moved iterations ps = resolveLoop m1 (Suc iterations) ps1"
    using "1.prems"(2) rp by (subst resolveLoop.simps) simp
  show ?case
  proof (cases "m1 \<and> Suc iterations < maxIterations")
    case True
    show ?thesis
      using "1.IH" [OF "1.prems"(2) rp [symmetric] refl _ True "1.prems"(3)] step "1.prems"(1)
      by simp
  next
    case False
    then have "resolveLoop m1 (Suc iterations) ps1 = (m1, Suc iterations, ps1)"
      by (subst resolveLoop.simps) auto
    then have eq: "m1 = moved'" "ps1 = ps'" using step "1.prems"(1) by simp_all
    then have "\<not> snd (resolvePass ps)" using rp "1.prems"(3) by simp
    from resolvePass_unmoved [OF this] show ?thesis using rp eq by simp
  qed
qed

text \<open>
  Claim C1. When the loop of \<open>resolveOverlaps\<close> stops with \<open>moved\<close> false, that is after a
  pass without displacement (in particular whenever it stops below the cap of 100
  passes), no two distinct panels of the resulting array overlap.
\<close>

theorem resolveOverlaps_fixed_point:
  assumes "resolveLoop True 0 ps = (moved, iterations, ps')"
    and "\<not> moved \<or> iterations < maxIterations"
  shows "resolveOverlaps ps = ps' \<and>
         (\<forall>i<length ps'. \<forall>j<length ps'. i \<noteq> j \<longrightarrow> \<not> panelsOverlap (ps' ! i) (ps' ! j))"
proof -
  have "\<not> moved" using resolveLoop_exit [OF assms(1)] assms(2) by auto
  then have "pairwiseApart ps'"
    using resolveLoop_unmoved [OF assms(1)] by (simp add: maxIterations_def)
  then show ?thesis using assms(1) by (simp add: pairwiseApart_def resolveOverlaps_def)
qed

theorem resolveOverlaps_fixed_point_witness:
  "resolveLoop True 0 [mkPanel ''a'' 0 0 80 120, mkPanel ''b'' 70 0 80 120]
     = (False, 2, [mkPanel ''a'' 0 0 80 120, mkPanel ''b'' 80 0 80 120]) \<and>
   2 < maxIterations \<and>
   \<not> panelsOverlap (mkPanel ''a'' 0 0 80 120) (mkPanel ''b'' 80 0 80 120)"
proof -
  have run: "resolveLoop True 0 [mkPanel ''a'' 0 0 80 120, mkPanel ''b'' 70 0 80 120]
     = (False, 2, [mkPanel ''a'' 0 0 80 120, mkPanel ''b'' 80 0 80 120])"
    by (simp add: resolveLoop.simps resolvePass_def innerLoop_def resolvePair_def pushApart_def
      panelsOverlap_def mkPanel_def maxIterations_def Let_def)
  have stop: "\<not> False \<or> 2 < maxIterations" by (simp add: maxIterations_def)
  from resolveOverlaps_fixed_point [OF run stop]
  have "0 < length [mkPanel ''a'' 0 0 80 120, mkPanel ''b'' 80 0 80 120] \<longrightarrow>
        1 < length [mkPanel ''a'' 0 0 80 120, mkPanel ''b'' 80 0 80 120] \<longrightarrow> (0::nat) \<noteq> 1 \<longrightarrow>
        \<not> panelsOverlap ([mkPanel ''a'' 0 0 80 120, mkPanel ''b'' 80 0 80 120] ! 0)
          ([mkPanel ''a'' 0 0 80 120, mkPanel ''b'' 80 0 80 120] ! 1)"
    by blast
  then have "\<not> panelsOverlap (mkPanel ''a'' 0 0 80 120) (mkPanel ''b'' 80 0 80 120)"
    by simp
  then show ?thesis using run by (simp add: maxIterations_def)
qed

section \<open>Properties of the normalizer, the defaults, the drag step and the export\<close>

subsection \<open>Worked records: the scenario, a negative rotation, zero coordinates\<close>

lemmas js_defs = truthyNum_def truthyStr_def orNum_def orNumDefault_def orStr_def
  orStrDefault_def jsRem_def mathTrunc_def

lemma pairwiseApart_single: "pairwiseApart [p]"
  by (simp add: pairwiseApart_def)

lemma normalize_scenario:
  "normalizePanels [scenarioRecord] =
     [\<lparr> posX = - 100, posY = 50, width = 120, height = 80, panelId = ''A1'',
        serialNumber = Some ''A1'', inverterSerialNumber = Some ''A1'',
        planeRotation = 90, spread = FromApi scenarioRecord \<rparr>]"
  by (simp add: normalizePanels_def normalizePanel_def yOffset_def allYCoords_def js_defs
      scenarioRecord_def rawEmpty_def Let_def)

text \<open>
  Claim C8. Loading the payload \<open>{result: {panels: [scenarioRecord]}}\<close> with the default
  dimensions gives \<open>yOffset = 100\<close> and one panel with \<open>y = 50 \<ge> 0\<close>, rotation 90 and
  width and height \<open>(120, 80)\<close>, the nominal 80 by 120 swapped.
\<close>

theorem scenario_A1:
  "yOffset [scenarioRecord] = 100 \<and>
   panels (loadPanelLayout None (Fetched (ResultPanels [scenarioRecord])) m) =
     [\<lparr> posX = - 100, posY = 50, width = 120, height = 80, panelId = ''A1'',
        serialNumber = Some ''A1'', inverterSerialNumber = Some ''A1'',
        planeRotation = 90, spread = FromApi scenarioRecord \<rparr>] \<and>
   0 \<le> posY (panels (loadPanelLayout None (Fetched (ResultPanels [scenarioRecord])) m) ! 0)"
proof -
  have off: "yOffset [scenarioRecord] = 100"
    by (simp add: yOffset_def allYCoords_def js_defs scenarioRecord_def rawEmpty_def)
  have "panels (loadPanelLayout None (Fetched (ResultPanels [scenarioRecord])) m) =
          resolveOverlaps (normalizePanels [scenarioRecord])"
    by (simp add: loadPanelLayout_def defaultMaxPower_def normalize_scenario)
  then have "panels (loadPanelLayout None (Fetched (ResultPanels [scenarioRecord])) m) =
          normalizePanels [scenarioRecord]"
    by (simp add: normalize_scenario resolveOverlaps_apart pairwiseApart_single)
  then show ?thesis using off by (simp add: normalize_scenario)
qed

text \<open>
  Claim C7 asks for a rotation in \<open>[0, 360)\<close> also for negative raw values. The code
  computes \<open>(planeRotation || 0) % 360\<close>, whose result has the sign of the dividend: a raw
  rotation of -90 is stored as -90, and the panel is sized as a 120 by 120 square instead
  of the swapped 120 by 80 that the equivalent rotation 270 receives.
\<close>

theorem negative_rotation_kept:
  "map (\<lambda>p. (planeRotation p, width p, height p))
     (panels (loadPanelLayout None
        (Fetched (DirectArray [rawEmpty\<lparr>raw_planeRotation := Some (- 90)\<rparr>,
                               rawEmpty\<lparr>raw_planeRotation := Some 270\<rparr>]))
        initialMonitor))
   = [(- 90, 120, 120), (270, 120, 80)] \<and>
   \<not> 0 \<le> planeRotation
     (panels (loadPanelLayout None
        (Fetched (DirectArray [rawEmpty\<lparr>raw_planeRotation := Some (- 90)\<rparr>,
                               rawEmpty\<lparr>raw_planeRotation := Some 270\<rparr>]))
        initialMonitor) ! 0)"
  by code_simp

lemma nth_normalizePanels:
  "i < length raws \<Longrightarrow> normalizePanels raws ! i = normalizePanel (yOffset raws) (raws ! i) i"
  by (simp add: normalizePanels_def)

text \<open>
  Claim C9, amended. In the chain \<open>xCoordinate || x || fallback\<close> an alias that is
  numerically 0 is skipped like an absent one. When both aliases are absent or 0 the panel
  gets the grid fallback \<open>(index mod 10) * 120 + 50\<close>, which is not 0; when
  \<open>xCoordinate\<close> is absent or 0 and \<open>x\<close> is a non-zero number, that number is taken, not
  the fallback; a non-zero \<open>xCoordinate\<close> is taken whatever \<open>x\<close> is. The same holds for y,
  with the row fallback \<open>floor(index / 10) * 120 + 50\<close> and the offset added in each case.
\<close>

theorem zero_coordinate_is_missing:
  "i < length raws \<Longrightarrow>
     (raw_xCoordinate (raws ! i) \<in> {None, Some 0} \<and> raw_x (raws ! i) \<in> {None, Some 0} \<longrightarrow>
        posX (normalizePanels raws ! i) = real (i mod 10) * 120 + 50 \<and>
        posX (normalizePanels raws ! i) \<noteq> 0) \<and>
     (\<forall>v. raw_xCoordinate (raws ! i) \<in> {None, Some 0} \<and> raw_x (raws ! i) = Some v \<and> v \<noteq> 0 \<longrightarrow>
        posX (normalizePanels raws ! i) = v) \<and>
     (\<forall>v. raw_xCoordinate (raws ! i) = Some v \<and> v \<noteq> 0 \<longrightarrow>
        posX (normalizePanels raws ! i) = v) \<and>
     (raw_yCoordinate (raws ! i) \<in> {None, Some 0} \<and> raw_y (raws ! i) \<in> {None, Some 0} \<longrightarrow>
        posY (normalizePanels raws ! i) = real (i div 10) * 120 + 50 + yOffset raws) \<and>
     (\<forall>v. raw_yCoordinate (raws ! i) \<in> {None, Some 0} \<and> raw_y (raws ! i) = Some v \<and> v \<noteq> 0 \<longrightarrow>
        posY (normalizePanels raws ! i) = v + yOffset raws) \<and>
     (\<forall>v. raw_yCoordinate (raws ! i) = Some v \<and> v \<noteq> 0 \<longrightarrow>
        posY (normalizePanels raws ! i) = v + yOffset raws)"
proof (intro conjI impI allI)
  assume i: "i < length raws"
  {
    assume "raw_xCoordinate (raws ! i) \<in> {None, Some 0} \<and> raw_x (raws ! i) \<in> {None, Some 0}"
    then show x: "posX (normalizePanels raws ! i) = real (i mod 10) * 120 + 50"
      using i by (auto simp: nth_normalizePanels normalizePanel_def js_defs Let_def)
    have "0 < real (i mod 10) * 120 + 50"
      by (rule add_nonneg_pos) simp_all
    then show "posX (normalizePanels raws ! i) \<noteq> 0" using x by simp
  }
  {
    fix v
    assume "raw_xCoordinate (raws ! i) \<in> {None, Some 0} \<and> raw_x (raws ! i) = Some v \<and> v \<noteq> 0"
    then show "posX (normalizePanels raws ! i) = v"
      using i by (auto simp: nth_normalizePanels normalizePanel_def js_defs Let_def)
  }
  {
    fix v
    assume "raw_xCoordinate (raws ! i) = Some v \<and> v \<noteq> 0"
    then show "posX (normalizePanels raws ! i) = v"
      using i by (auto simp: nth_normalizePanels normalizePanel_def js_defs Let_def)
  }
  {
    assume "raw_yCoordinate (raws ! i) \<in> {None, Some 0} \<and> raw_y (raws ! i) \<in> {None, Some 0}"
    then show "posY (normalizePanels raws ! i) = real (i div 10) * 120 + 50 + yOffset raws"
      using i by (auto simp: nth_normalizePanels normalizePanel_def js_defs Let_def)
  }
  {
    fix v
    assume "raw_yCoordinate (raws ! i) \<in> {None, Some 0} \<and> raw_y (raws ! i) = Some v \<and> v \<noteq> 0"
    then show "posY (normalizePanels raws ! i) = v + yOffset raws"
      using i by (auto simp: nth_normalizePanels normalizePanel_def js_defs Let_def)
  }
  {
    fix v
    assume "raw_yCoordinate (raws ! i) = Some v \<and> v \<noteq> 0"
    then show "posY (normalizePanels raws ! i) = v + yOffset raws"
      using i by (auto simp: nth_normalizePanels normalizePanel_def js_defs Let_def)
  }
qed

theorem zero_coordinate_is_missing_witness:
  "(13::nat) < length (replicate 14 (rawEmpty\<lparr>raw_xCoordinate := Some 0, raw_y := Some 0\<rparr>)) \<and>
   posX (normalizePanels (replicate 14 (rawEmpty\<lparr>raw_xCoordinate := Some 0, raw_y := Some 0\<rparr>)) ! 13)
     = 410 \<and>
   posY (normalizePanels (replicate 14 (rawEmpty\<lparr>raw_xCoordinate := Some 0, raw_y := Some 0\<rparr>)) ! 13)
     = 220 \<and>
   (0::nat) < length [rawEmpty\<lparr>raw_xCoordinate := Some 0, raw_x := Some 5,
                              raw_yCoordinate := Some 0, raw_y := Some 9\<rparr>,
                     rawEmpty\<lparr>raw_xCoordinate := Some 3, raw_x := Some 0,
                              raw_yCoordinate := Some 4, raw_y := Some 0\<rparr>] \<and>
   map (\<lambda>p. (posX p, posY p))
     (normalizePanels [rawEmpty\<lparr>raw_xCoordinate := Some 0, raw_x := Some 5,
                                raw_yCoordinate := Some 0, raw_y := Some 9\<rparr>,
                       rawEmpty\<lparr>raw_xCoordinate := Some 3, raw_x := Some 0,
                                raw_yCoordinate := Some 4, raw_y := Some 0\<rparr>])
     = [(5, 59), (3, 54)]"
proof -
  let ?zeros = "replicate 14 (rawEmpty\<lparr>raw_xCoordinate := Some 0, raw_y := Some 0\<rparr>)"
  let ?mixed = "[rawEmpty\<lparr>raw_xCoordinate := Some 0, raw_x := Some 5,
                          raw_yCoordinate := Some 0, raw_y := Some 9\<rparr>,
                 rawEmpty\<lparr>raw_xCoordinate := Some 3, raw_x := Some 0,
                          raw_yCoordinate := Some 4, raw_y := Some 0\<rparr>]"
  have off: "yOffset ?zeros = 50"
    by (simp add: yOffset_def allYCoords_def js_defs rawEmpty_def numeral_eq_Suc)
  have off2: "yOffset ?mixed = 50"
    by (simp add: yOffset_def allYCoords_def js_defs rawEmpty_def)
  have z: "posX (normalizePanels ?zeros ! 13) = 410 \<and> posY (normalizePanels ?zeros ! 13) = 220"
    using zero_coordinate_is_missing [of 13 ?zeros] off by (simp add: rawEmpty_def)
  have a0: "posX (normalizePanels ?mixed ! 0) = 5 \<and> posY (normalizePanels ?mixed ! 0) = 59"
    using zero_coordinate_is_missing [of 0 ?mixed] off2 by (simp add: rawEmpty_def)
  have a1: "posX (normalizePanels ?mixed ! 1) = 3 \<and> posY (normalizePanels ?mixed ! 1) = 54"
    using zero_coordinate_is_missing [of 1 ?mixed] off2 by (simp add: rawEmpty_def)
  have len: "length (normalizePanels ?mixed) = 2" by (simp add: normalizePanels_def)
  have "map (\<lambda>p. (posX p, posY p)) (normalizePanels ?mixed) = [(5, 59), (3, 54)]"
    using a0 a1 len by (simp add: list_eq_iff_nth_eq less_Suc_eq numeral_2_eq_2)
  then show ?thesis using z by simp
qed

theorem zero_coordinate_alias_counterexample:
  "raw_xCoordinate (rawEmpty\<lparr>raw_xCoordinate := Some 0, raw_x := Some 5\<rparr>) = Some 0 \<and>
   posX (panels (loadPanelLayout None
           (Fetched (DirectArray [rawEmpty\<lparr>raw_xCoordinate := Some 0, raw_x := Some 5\<rparr>]))
           initialMonitor) ! 0) = 5 \<and>
   posX (panels (loadPanelLayout None
           (Fetched (DirectArray [rawEmpty\<lparr>raw_xCoordinate := Some 0, raw_x := Some 5\<rparr>]))
           initialMonitor) ! 0) \<noteq> real (0 mod 10) * 120 + 50"
  by code_simp

subsection \<open>Default panels\<close>

lemma defaultPanel_fields:
  "posX (defaultPanel i) = 50 + real (i mod 4) * 140"
  "posY (defaultPanel i) = 50 + real (i div 4) * 140"
  "width (defaultPanel i) = (if even i then 80 else 120)"
  "height (defaultPanel i) = (if even i then 120 else 80)"
  "planeRotation (defaultPanel i) = (if even i then 0 else 90)"
  by (simp_all add: defaultPanel_def Let_def even_iff_mod_2_eq_zero)

lemma nth_createDefaultPanels: "i < 12 \<Longrightarrow> createDefaultPanels ! i = defaultPanel i"
  by (simp add: createDefaultPanels_def)

lemma length_createDefaultPanels: "length createDefaultPanels = 12"
  by (simp add: createDefaultPanels_def)

lemma defaultPanel_apart:
  assumes "i \<noteq> j"
  shows "\<not> panelsOverlap (defaultPanel i) (defaultPanel j)"
proof (cases "i mod 4 = j mod 4")
  case False
  then have "i mod 4 < j mod 4 \<or> j mod 4 < i mod 4" by auto
  then have "real (i mod 4) + 1 \<le> real (j mod 4) \<or> real (j mod 4) + 1 \<le> real (i mod 4)"
    by (metis Suc_leI of_nat_Suc of_nat_le_iff add.commute)
  then show ?thesis
    by (auto simp: panelsOverlap_def defaultPanel_fields)
next
  case True
  have "i div 4 \<noteq> j div 4"
  proof
    assume "i div 4 = j div 4"
    then have "i = j" using True by (metis div_mult_mod_eq)
    then show False using assms by simp
  qed
  then have "i div 4 < j div 4 \<or> j div 4 < i div 4" by auto
  then have "real (i div 4) + 1 \<le> real (j div 4) \<or> real (j div 4) + 1 \<le> real (i div 4)"
    by (metis Suc_leI of_nat_Suc of_nat_le_iff add.commute)
  then show ?thesis
    by (auto simp: panelsOverlap_def defaultPanel_fields)
qed

lemma createDefaultPanels_apart: "pairwiseApart createDefaultPanels"
  by (simp add: pairwiseApart_def length_createDefaultPanels nth_createDefaultPanels
      defaultPanel_apart)

lemma createDefaultPanels_nonempty: "createDefaultPanels \<noteq> []"
  using length_createDefaultPanels by auto

text \<open>
  Claim C4. \<open>createDefaultPanels\<close> makes exactly 12 panels, panel \<open>i\<close> in column
  \<open>i mod 4\<close> and row \<open>i div 4\<close> of a grid whose cells are 120 plus a spacing of 20 apart,
  rotated 0 for even and 90 for odd \<open>i\<close> with the dimensions swapped accordingly; no two of
  them overlap; and they are the panels of the monitor whenever normalization of the
  fetched payload yields no panel.
\<close>

theorem default_panels_grid:
  "length createDefaultPanels = 12 \<and>
   (\<forall>i<12. posX (createDefaultPanels ! i) = 50 + real (i mod 4) * (120 + 20) \<and>
           posY (createDefaultPanels ! i) = 50 + real (i div 4) * (120 + 20) \<and>
           planeRotation (createDefaultPanels ! i) = (if even i then 0 else 90) \<and>
           width (createDefaultPanels ! i) = (if even i then 80 else 120) \<and>
           height (createDefaultPanels ! i) = (if even i then 120 else 80)) \<and>
   (\<forall>i<12. \<forall>j<12. i \<noteq> j \<longrightarrow>
      \<not> panelsOverlap (createDefaultPanels ! i) (createDefaultPanels ! j)) \<and>
   (\<forall>m payload. normalizePanels (panelsArrayOf payload) = [] \<longrightarrow>
      panels (loadPanelLayout None (Fetched payload) m) = createDefaultPanels)"
proof (intro conjI allI impI)
  show "length createDefaultPanels = 12" by (rule length_createDefaultPanels)
next
  fix i :: nat assume i: "i < 12"
  show "posX (createDefaultPanels ! i) = 50 + real (i mod 4) * (120 + 20)"
    and "posY (createDefaultPanels ! i) = 50 + real (i div 4) * (120 + 20)"
    and "planeRotation (createDefaultPanels ! i) = (if even i then 0 else 90)"
    and "width (createDefaultPanels ! i) = (if even i then 80 else 120)"
    and "height (createDefaultPanels ! i) = (if even i then 120 else 80)"
    using i by (simp_all add: nth_createDefaultPanels defaultPanel_fields)
next
  fix i j :: nat assume "i < 12" "j < 12" "i \<noteq> j"
  then show "\<not> panelsOverlap (createDefaultPanels ! i) (createDefaultPanels ! j)"
    by (simp add: nth_createDefaultPanels defaultPanel_apart)
next
  fix m payload assume "normalizePanels (panelsArrayOf payload) = []"
  then show "panels (loadPanelLayout None (Fetched payload) m) = createDefaultPanels"
    by (simp add: loadPanelLayout_def defaultMaxPower_def resolveOverlaps_apart
        createDefaultPanels_apart)
qed

theorem default_panels_grid_witness:
  "(0::nat) < 12 \<and> (1::nat) < 12 \<and> (0::nat) \<noteq> 1 \<and>
   normalizePanels (panelsArrayOf Unrecognised) = [] \<and>
   posX (createDefaultPanels ! 1) = 190 \<and> posY (createDefaultPanels ! 1) = 50 \<and>
   planeRotation (createDefaultPanels ! 1) = 90 \<and>
   \<not> panelsOverlap (createDefaultPanels ! 0) (createDefaultPanels ! 1) \<and>
   panels (loadPanelLayout None (Fetched Unrecognised) initialMonitor) = createDefaultPanels"
  using default_panels_grid by (simp add: normalizePanels_def)

subsection \<open>Non-negative coordinates\<close>

lemma mathMin_None: "mathMin vs = None \<Longrightarrow> vs = []"
  by (cases vs) (auto split: option.splits)

lemma mathMin_le: "mathMin vs = Some m \<Longrightarrow> v \<in> set vs \<Longrightarrow> m \<le> v"
  by (induction vs arbitrary: m) (auto split: option.splits dest: mathMin_None)

lemma yOffset_ge: "50 \<le> yOffset raws"
  by (simp add: yOffset_def split: option.splits)

lemma yOffset_covers:
  assumes "r \<in> set raws"
  shows "50 \<le> orNumDefault (orNum (raw_yCoordinate r) (raw_y r)) 0 + yOffset raws"
proof -
  let ?v = "orNumDefault (orNum (raw_yCoordinate r) (raw_y r)) 0"
  have mem: "?v \<in> set (allYCoords raws)" using assms by (auto simp: allYCoords_def)
  show ?thesis
  proof (cases "mathMin (allYCoords raws)")
    case None
    then have "allYCoords raws = []" by (rule mathMin_None)
    then show ?thesis using mem by simp
  next
    case (Some m)
    then have "m \<le> ?v" using mem by (rule mathMin_le)
    then show ?thesis using Some by (simp add: yOffset_def)
  qed
qed

lemma normalizePanel_posY:
  assumes "r \<in> set raws"
  shows "50 \<le> posY (normalizePanel (yOffset raws) r i)"
proof (cases "truthyNum (orNum (raw_yCoordinate r) (raw_y r))")
  case True
  then have "orNumDefault (orNum (raw_yCoordinate r) (raw_y r)) (real (i div 10) * 120 + 50)
           = orNumDefault (orNum (raw_yCoordinate r) (raw_y r)) 0"
    by (auto simp: orNumDefault_def truthyNum_def split: option.splits)
  then show ?thesis using yOffset_covers [OF assms]
    by (simp add: normalizePanel_def Let_def split: prod.splits)
next
  case False
  then have "orNumDefault (orNum (raw_yCoordinate r) (raw_y r)) (real (i div 10) * 120 + 50)
           = real (i div 10) * 120 + 50"
    by (auto simp: orNumDefault_def truthyNum_def split: option.splits)
  moreover have "0 \<le> real (i div 10) * 120" by simp
  ultimately show ?thesis using yOffset_ge [of raws]
    by (simp add: normalizePanel_def Let_def split: prod.splits)
qed

lemma normalizePanel_posX:
  "0 \<le> posX (normalizePanel yOff r i) \<longleftrightarrow>
     (\<forall>v. orNum (raw_xCoordinate r) (raw_x r) = Some v \<longrightarrow> 0 \<le> v)"
proof -
  have "0 \<le> real (i mod 10) * 120 + 50" by (rule add_nonneg_nonneg) simp_all
  then show ?thesis
    by (auto simp: normalizePanel_def Let_def orNumDefault_def split: prod.splits option.splits)
qed

lemma keepsNonNegative_refl: "keepsNonNegative ps ps"
  by (simp add: keepsNonNegative_def)

lemma keepsNonNegative_trans:
  "keepsNonNegative ps qs \<Longrightarrow> keepsNonNegative qs rs \<Longrightarrow> keepsNonNegative ps rs"
  by (simp add: keepsNonNegative_def)

lemma nth_update_cases:
  "k < length xs \<Longrightarrow> P (xs ! k) \<Longrightarrow> (k = i \<Longrightarrow> P v) \<Longrightarrow> P (xs[i := v] ! k)"
  by (cases "k = i") simp_all

lemma pushApart_keeps:
  assumes "panelsOverlap a b" "pushApart a b = (a', b')"
  shows "(0 \<le> posX a \<longrightarrow> 0 \<le> posX a') \<and> (0 \<le> posY a \<longrightarrow> 0 \<le> posY a') \<and>
         (0 \<le> posX b \<longrightarrow> 0 \<le> posX b') \<and> (0 \<le> posY b \<longrightarrow> 0 \<le> posY b')"
proof -
  have ox: "0 < min (posX a + width a - posX b) (posX b + width b - posX a)"
    and oy: "0 < min (posY a + height a - posY b) (posY b + height b - posY a)"
    using assms(1) by (auto simp: panelsOverlap_def)
  show ?thesis
    using assms(2) ox oy
    by (auto simp: pushApart_def Let_def split: if_splits)
qed

lemma resolvePair_keeps: "keepsNonNegative (fst st) (fst (resolvePair i j st))"
proof (cases "panelsOverlap (fst st ! i) (fst st ! j)")
  case False
  then show ?thesis by (simp add: resolvePair_def Let_def keepsNonNegative_refl)
next
  case True
  obtain a' b' where pa: "pushApart (fst st ! i) (fst st ! j) = (a', b')"
    by (cases "pushApart (fst st ! i) (fst st ! j)")
  note keep = pushApart_keeps [OF True pa]
  have r: "fst (resolvePair i j st) = (fst st)[i := a', j := b']"
    using True pa by (simp add: resolvePair_def Let_def)
  have "(0 \<le> posX (fst st ! k) \<longrightarrow> 0 \<le> posX ((fst st)[i := a', j := b'] ! k)) \<and>
        (0 \<le> posY (fst st ! k) \<longrightarrow> 0 \<le> posY ((fst st)[i := a', j := b'] ! k))"
    if k: "k < length (fst st)" for k
  proof (rule nth_update_cases [where P = "\<lambda>p. (0 \<le> posX (fst st ! k) \<longrightarrow> 0 \<le> posX p) \<and>
                                              (0 \<le> posY (fst st ! k) \<longrightarrow> 0 \<le> posY p)"])
    show "k < length ((fst st)[i := a'])" using k by simp
    show "(0 \<le> posX (fst st ! k) \<longrightarrow> 0 \<le> posX ((fst st)[i := a'] ! k)) \<and>
          (0 \<le> posY (fst st ! k) \<longrightarrow> 0 \<le> posY ((fst st)[i := a'] ! k))"
      by (rule nth_update_cases [OF k]) (use keep in simp_all)
    show "(0 \<le> posX (fst st ! k) \<longrightarrow> 0 \<le> posX b') \<and>
          (0 \<le> posY (fst st ! k) \<longrightarrow> 0 \<le> posY b')" if "k = j"
      using that keep by simp
  qed
  then show ?thesis unfolding r by (simp add: keepsNonNegative_def)
qed

lemma innerLoop_keeps: "keepsNonNegative (fst st) (fst (innerLoop i st))"
  unfolding innerLoop_def
  by (rule fold_invariant [where P = "\<lambda>s. keepsNonNegative (fst st) (fst s)"])
     (auto intro: keepsNonNegative_refl keepsNonNegative_trans resolvePair_keeps)

lemma resolvePass_keeps: "keepsNonNegative ps (fst (resolvePass ps))"
  unfolding resolvePass_def
  by (rule fold_invariant [where P = "\<lambda>s. keepsNonNegative ps (fst s)"])
     (auto intro: keepsNonNegative_refl keepsNonNegative_trans innerLoop_keeps)

lemma resolveLoop_keeps: "keepsNonNegative ps (snd (snd (resolveLoop moved its ps)))"
proof (induction moved its ps rule: resolveLoop.induct)
  case (1 moved iterations ps)
  show ?case
  proof (cases "moved \<and> iterations < maxIterations")
    case False
    then show ?thesis by (subst resolveLoop.simps) (auto simp: keepsNonNegative_refl)
  next
    case True
    obtain ps1 m1 where rp: "resolvePass ps = (ps1, m1)" by (cases "resolvePass ps")
    have "keepsNonNegative ps ps1" using resolvePass_keeps [of ps] rp by simp
    moreover have "keepsNonNegative ps1 (snd (snd (resolveLoop m1 (Suc iterations) ps1)))"
      using "1.IH" [OF True rp [symmetric] refl] .
    moreover have "resolveLoop moved iterations ps = resolveLoop m1 (Suc iterations) ps1"
      using True rp by (subst resolveLoop.simps) simp
    ultimately show ?thesis by (simp add: keepsNonNegative_trans)
  qed
qed

lemma resolveOverlaps_keeps: "keepsNonNegative ps (resolveOverlaps ps)"
  by (simp add: resolveOverlaps_def resolveLoop_keeps)

lemma handleMouseMove_keeps: "keepsNonNegative (panels m) (panels (handleMouseMove m pointer))"
proof -
  have "keepsNonNegative ps (ps[d := (ps ! d)\<lparr>posX := max 0 x, posY := max 0 y\<rparr>])"
    for ps :: "panel list" and d x y
  proof -
    have "(0 \<le> posX (ps ! k) \<longrightarrow>
             0 \<le> posX (ps[d := (ps ! d)\<lparr>posX := max 0 x, posY := max 0 y\<rparr>] ! k)) \<and>
          (0 \<le> posY (ps ! k) \<longrightarrow>
             0 \<le> posY (ps[d := (ps ! d)\<lparr>posX := max 0 x, posY := max 0 y\<rparr>] ! k))"
      if k: "k < length ps" for k
      by (rule nth_update_cases [OF k]) simp_all
    then show ?thesis by (simp add: keepsNonNegative_def)
  qed
  then show ?thesis
    by (auto simp: handleMouseMove_def handleMouseUp_def keepsNonNegative_refl
        split: option.splits prod.splits)
qed

lemma createDefaultPanels_posY: "p \<in> set createDefaultPanels \<Longrightarrow> 0 \<le> posY p"
  by (auto simp: createDefaultPanels_def defaultPanel_fields)

lemma normalizePanels_posY: "p \<in> set (normalizePanels raws) \<Longrightarrow> 0 \<le> posY p"
proof -
  assume "p \<in> set (normalizePanels raws)"
  then obtain i where i: "i < length raws" "normalizePanels raws ! i = p"
    by (auto simp: in_set_conv_nth normalizePanels_def)
  have "50 \<le> posY (normalizePanel (yOffset raws) (raws ! i) i)"
    by (rule normalizePanel_posY) (use i in simp)
  then show ?thesis using i by (simp add: nth_normalizePanels)
qed

lemma keepsNonNegative_posY:
  assumes "keepsNonNegative ps qs" "\<forall>p \<in> set ps. 0 \<le> posY p"
  shows "\<forall>q \<in> set qs. 0 \<le> posY q"
proof
  fix q assume "q \<in> set qs"
  then obtain i where i: "i < length qs" "qs ! i = q" by (auto simp: in_set_conv_nth)
  then have "0 \<le> posY (ps ! i)" using assms by (simp add: keepsNonNegative_def)
  then show "0 \<le> posY q" using assms(1) i by (auto simp: keepsNonNegative_def)
qed

lemma loadPanelLayout_api_panels:
  "panels (loadPanelLayout None response m) =
     resolveOverlaps (case response of
        FetchFailed \<Rightarrow> createDefaultPanels
      | Fetched data \<Rightarrow> if normalizePanels (panelsArrayOf data) = [] then createDefaultPanels
                        else normalizePanels (panelsArrayOf data))"
  by (cases response) (simp_all add: loadPanelLayout_def defaultMaxPower_def)

lemma loadPanelLayout_api_posY:
  "\<forall>p \<in> set (panels (loadPanelLayout None response m)). 0 \<le> posY p"
  unfolding loadPanelLayout_api_panels
  by (rule keepsNonNegative_posY [OF resolveOverlaps_keeps])
     (auto simp: createDefaultPanels_posY normalizePanels_posY split: fetched.splits)

lemma loadPanelLayout_api_posX:
  assumes "i < length (panelsArrayOf data)"
    and "\<forall>v. orNum (raw_xCoordinate (panelsArrayOf data ! i)) (raw_x (panelsArrayOf data ! i)) = Some v
           \<longrightarrow> 0 \<le> v"
  shows "0 \<le> posX (panels (loadPanelLayout None (Fetched data) m) ! i)"
proof -
  let ?raws = "panelsArrayOf data"
  have ne: "normalizePanels ?raws \<noteq> []" using assms(1) by (auto simp: normalizePanels_def)
  have len: "length (normalizePanels ?raws) = length ?raws" by (simp add: normalizePanels_def)
  have "0 \<le> posX (normalizePanels ?raws ! i)"
    using assms by (simp only: nth_normalizePanels normalizePanel_posX)
  then have "0 \<le> posX (resolveOverlaps (normalizePanels ?raws) ! i)"
    using resolveOverlaps_keeps [of "normalizePanels ?raws"] assms(1) len
    by (simp add: keepsNonNegative_def)
  then show ?thesis using ne by (simp add: loadPanelLayout_api_panels)
qed

text \<open>
  Claim C3, amended. Every panel produced by normalization has \<open>y \<ge> 0\<close>; its \<open>x\<close> is
  \<open>\<ge> 0\<close> exactly when the record's explicit x (\<open>xCoordinate\<close>, else \<open>x\<close>) is not
  negative, a negative explicit x being kept as it is. The overlap resolver and a
  pointer-move never turn a non-negative coordinate of any panel negative, whatever the
  other coordinates are, and a drag step leaves the dragged panel at coordinates
  \<open>\<ge> 0\<close> in any case. So after every load from the API all \<open>y\<close> are \<open>\<ge> 0\<close>, and so
  is the \<open>x\<close> of every panel whose record has no negative explicit x.
\<close>

theorem coordinates_nonnegative:
  "(\<forall>i<length raws.
      0 \<le> posY (normalizePanels raws ! i) \<and>
      (0 \<le> posX (normalizePanels raws ! i) \<longleftrightarrow>
         (\<forall>v. orNum (raw_xCoordinate (raws ! i)) (raw_x (raws ! i)) = Some v \<longrightarrow> 0 \<le> v))) \<and>
   length (resolveOverlaps ps) = length ps \<and>
   (\<forall>i<length ps.
      (0 \<le> posX (ps ! i) \<longrightarrow> 0 \<le> posX (resolveOverlaps ps ! i)) \<and>
      (0 \<le> posY (ps ! i) \<longrightarrow> 0 \<le> posY (resolveOverlaps ps ! i))) \<and>
   length (panels (handleMouseMove m pointer)) = length (panels m) \<and>
   (\<forall>i<length (panels m).
      (0 \<le> posX (panels m ! i) \<longrightarrow> 0 \<le> posX (panels (handleMouseMove m pointer) ! i)) \<and>
      (0 \<le> posY (panels m ! i) \<longrightarrow> 0 \<le> posY (panels (handleMouseMove m pointer) ! i))) \<and>
   (isDragging m \<and> editPlacementEnabled m \<and> dragPanel m = Some d \<and> d < length (panels m) \<longrightarrow>
      0 \<le> posX (panels (handleMouseMove m pointer) ! d) \<and>
      0 \<le> posY (panels (handleMouseMove m pointer) ! d)) \<and>
   (\<forall>p \<in> set (panels (loadPanelLayout None response m0)). 0 \<le> posY p) \<and>
   (\<forall>i<length (panelsArrayOf payload).
      (\<forall>v. orNum (raw_xCoordinate (panelsArrayOf payload ! i)) (raw_x (panelsArrayOf payload ! i))
             = Some v \<longrightarrow> 0 \<le> v) \<longrightarrow>
      0 \<le> posX (panels (loadPanelLayout None (Fetched payload) m0) ! i))"
proof (intro conjI)
  show "\<forall>i<length raws.
      0 \<le> posY (normalizePanels raws ! i) \<and>
      (0 \<le> posX (normalizePanels raws ! i) \<longleftrightarrow>
         (\<forall>v. orNum (raw_xCoordinate (raws ! i)) (raw_x (raws ! i)) = Some v \<longrightarrow> 0 \<le> v))"
  proof (intro allI impI conjI)
    fix i assume i: "i < length raws"
    then have "50 \<le> posY (normalizePanel (yOffset raws) (raws ! i) i)"
      by (intro normalizePanel_posY) simp
    then show "0 \<le> posY (normalizePanels raws ! i)"
      using i by (simp add: nth_normalizePanels)
    show "0 \<le> posX (normalizePanels raws ! i) \<longleftrightarrow>
           (\<forall>v. orNum (raw_xCoordinate (raws ! i)) (raw_x (raws ! i)) = Some v \<longrightarrow> 0 \<le> v)"
      using i by (simp only: nth_normalizePanels normalizePanel_posX)
  qed
  show "length (resolveOverlaps ps) = length ps"
    and "\<forall>i<length ps.
      (0 \<le> posX (ps ! i) \<longrightarrow> 0 \<le> posX (resolveOverlaps ps ! i)) \<and>
      (0 \<le> posY (ps ! i) \<longrightarrow> 0 \<le> posY (resolveOverlaps ps ! i))"
    using resolveOverlaps_keeps [of ps] by (simp_all add: keepsNonNegative_def)
  show "length (panels (handleMouseMove m pointer)) = length (panels m)"
    and "\<forall>i<length (panels m).
      (0 \<le> posX (panels m ! i) \<longrightarrow> 0 \<le> posX (panels (handleMouseMove m pointer) ! i)) \<and>
      (0 \<le> posY (panels m ! i) \<longrightarrow> 0 \<le> posY (panels (handleMouseMove m pointer) ! i))"
    using handleMouseMove_keeps [of m pointer] by (simp_all add: keepsNonNegative_def)
  show "isDragging m \<and> editPlacementEnabled m \<and> dragPanel m = Some d \<and> d < length (panels m) \<longrightarrow>
      0 \<le> posX (panels (handleMouseMove m pointer) ! d) \<and>
      0 \<le> posY (panels (handleMouseMove m pointer) ! d)"
    by (simp add: handleMouseMove_def Let_def split: prod.splits)
  show "\<forall>p \<in> set (panels (loadPanelLayout None response m0)). 0 \<le> posY p"
    by (rule loadPanelLayout_api_posY)
  show "\<forall>i<length (panelsArrayOf payload).
      (\<forall>v. orNum (raw_xCoordinate (panelsArrayOf payload ! i)) (raw_x (panelsArrayOf payload ! i))
             = Some v \<longrightarrow> 0 \<le> v) \<longrightarrow>
      0 \<le> posX (panels (loadPanelLayout None (Fetched payload) m0) ! i)"
    using loadPanelLayout_api_posX by blast
qed

theorem coordinates_nonnegative_witness:
  "(0::nat) < length [rawEmpty\<lparr>raw_xCoordinate := Some 7\<rparr>] \<and>
   orNum (raw_xCoordinate ([rawEmpty\<lparr>raw_xCoordinate := Some 7\<rparr>] ! 0))
         (raw_x ([rawEmpty\<lparr>raw_xCoordinate := Some 7\<rparr>] ! 0)) = Some 7 \<and>
   0 \<le> posX (normalizePanels [rawEmpty\<lparr>raw_xCoordinate := Some 7\<rparr>] ! 0) \<and>
   0 \<le> posY (normalizePanels [rawEmpty\<lparr>raw_xCoordinate := Some 7\<rparr>] ! 0) \<and>
   (0::nat) < length negativeScene \<and> posX (negativeScene ! 0) < 0 \<and> 0 \<le> posY (negativeScene ! 0) \<and>
   resolveOverlaps negativeScene \<noteq> negativeScene \<and>
   0 \<le> posY (resolveOverlaps negativeScene ! 0) \<and>
   isDragging dragScene \<and> editPlacementEnabled dragScene \<and> dragPanel dragScene = Some 1 \<and>
   1 < length (panels dragScene) \<and> 0 \<le> posX (panels dragScene ! 0) \<and>
   0 \<le> posX (panels (handleMouseMove dragScene (0, 150)) ! 0) \<and>
   0 \<le> posX (panels (handleMouseMove dragScene (0, 150)) ! 1) \<and>
   panels (loadPanelLayout None (Fetched (ResultPanels [scenarioRecord])) initialMonitor) ! 0
     \<in> set (panels (loadPanelLayout None (Fetched (ResultPanels [scenarioRecord])) initialMonitor)) \<and>
   0 \<le> posY (panels (loadPanelLayout None (Fetched (ResultPanels [scenarioRecord]))
                       initialMonitor) ! 0) \<and>
   (0::nat) < length (panelsArrayOf twoPanelPayload) \<and>
   0 \<le> posX (panels (loadPanelLayout None (Fetched twoPanelPayload) initialMonitor) ! 0)"
proof -
  note inst = coordinates_nonnegative
    [of "[rawEmpty\<lparr>raw_xCoordinate := Some 7\<rparr>]" negativeScene dragScene "(0, 150)" 1
        "Fetched (ResultPanels [scenarioRecord])" initialMonitor twoPanelPayload]
  have sel: "orNum (raw_xCoordinate ([rawEmpty\<lparr>raw_xCoordinate := Some 7\<rparr>] ! 0))
         (raw_x ([rawEmpty\<lparr>raw_xCoordinate := Some 7\<rparr>] ! 0)) = Some 7"
    by (simp add: js_defs rawEmpty_def)
  have neg: "(0::nat) < length negativeScene" "posX (negativeScene ! 0) < 0"
    "0 \<le> posY (negativeScene ! 0)"
    by (simp_all add: negativeScene_def mkPanel_def)
  have moved: "resolveOverlaps negativeScene \<noteq> negativeScene" by code_simp
  have st: "isDragging dragScene" "editPlacementEnabled dragScene" "dragPanel dragScene = Some 1"
    "1 < length (panels dragScene)" "0 \<le> posX (panels dragScene ! 0)"
    by code_simp+
  have l0: "0 < length (panels dragScene)" by code_simp
  have mem: "panels (loadPanelLayout None (Fetched (ResultPanels [scenarioRecord])) initialMonitor) ! 0
     \<in> set (panels (loadPanelLayout None (Fetched (ResultPanels [scenarioRecord])) initialMonitor))"
    by code_simp
  have pl: "(0::nat) < length (panelsArrayOf twoPanelPayload)"
    "\<forall>v. orNum (raw_xCoordinate (panelsArrayOf twoPanelPayload ! 0))
             (raw_x (panelsArrayOf twoPanelPayload ! 0)) = Some v \<longrightarrow> 0 \<le> v"
    by (simp_all add: twoPanelPayload_def rawEmpty_def js_defs)
  have n1: "0 \<le> posY (normalizePanels [rawEmpty\<lparr>raw_xCoordinate := Some 7\<rparr>] ! 0)"
    and n2: "0 \<le> posX (normalizePanels [rawEmpty\<lparr>raw_xCoordinate := Some 7\<rparr>] ! 0)"
    using inst [THEN conjunct1, rule_format, of 0] sel by simp_all
  have r: "0 \<le> posY (resolveOverlaps negativeScene ! 0)"
    using inst [THEN conjunct2, THEN conjunct2, THEN conjunct1, rule_format, OF neg(1)] neg(3)
    by simp
  have d0: "0 \<le> posX (panels (handleMouseMove dragScene (0, 150)) ! 0)"
    using inst [THEN conjunct2, THEN conjunct2, THEN conjunct2, THEN conjunct2, THEN conjunct1,
               rule_format, OF l0] st
    by simp
  have d1: "0 \<le> posX (panels (handleMouseMove dragScene (0, 150)) ! 1)"
    using inst [THEN conjunct2, THEN conjunct2, THEN conjunct2, THEN conjunct2, THEN conjunct2,
               THEN conjunct1] st
    by simp
  have ly: "0 \<le> posY (panels (loadPanelLayout None (Fetched (ResultPanels [scenarioRecord]))
                       initialMonitor) ! 0)"
    using inst [THEN conjunct2, THEN conjunct2, THEN conjunct2, THEN conjunct2, THEN conjunct2,
               THEN conjunct2, THEN conjunct1, rule_format, OF mem] .
  have lx: "0 \<le> posX (panels (loadPanelLayout None (Fetched twoPanelPayload) initialMonitor) ! 0)"
    using inst [THEN conjunct2, THEN conjunct2, THEN conjunct2, THEN conjunct2, THEN conjunct2,
               THEN conjunct2, THEN conjunct2, rule_format, OF pl(1)] pl(2)
    by blast
  show ?thesis
    using sel neg moved st mem pl(1) n1 n2 r d0 d1 ly lx by simp
qed

theorem coordinates_nonnegative_counterexample:
  "posX (panels (loadPanelLayout None (Fetched (ResultPanels [scenarioRecord])) initialMonitor) ! 0)
     = - 100 \<and>
   \<not> 0 \<le> posX (panels (loadPanelLayout None (Fetched (ResultPanels [scenarioRecord]))
                         initialMonitor) ! 0)"
proof -
  have "panels (loadPanelLayout None (Fetched (ResultPanels [scenarioRecord])) initialMonitor) =
          resolveOverlaps (normalizePanels [scenarioRecord])"
    by (simp add: loadPanelLayout_def defaultMaxPower_def normalize_scenario)
  then have "panels (loadPanelLayout None (Fetched (ResultPanels [scenarioRecord])) initialMonitor) =
          normalizePanels [scenarioRecord]"
    by (simp add: normalize_scenario resolveOverlaps_apart pairwiseApart_single)
  then show ?thesis by (simp add: normalize_scenario)
qed

subsection \<open>One drag step\<close>

lemma avoidPanel_clear:
  "\<not> panelsOverlap
       \<lparr>posX = fst (avoidPanel D P pos), posY = snd (avoidPanel D P pos),
        width = width D, height = height D\<rparr> P"
  by (auto simp: avoidPanel_def panelsOverlap_def Let_def)

lemma dragLoop_snoc:
  "dragLoop d ps [0..<Suc k] pos = dragLoopStep d ps k (dragLoop d ps [0..<k] pos)"
  by (simp add: dragLoop_def)

lemma dragLoop_clear:
  assumes "k \<noteq> d"
  shows "\<not> panelsOverlap
           \<lparr>posX = fst (dragLoop d ps [0..<Suc k] pos), posY = snd (dragLoop d ps [0..<Suc k] pos),
            width = width (ps ! d), height = height (ps ! d)\<rparr> (ps ! k)"
proof -
  have "dragLoop d ps [0..<Suc k] pos = avoidPanel (ps ! d) (ps ! k) (dragLoop d ps [0..<k] pos)"
    using assms by (simp add: dragLoop_def dragLoopStep_def)
  then show ?thesis
    using avoidPanel_clear [of "ps ! d" "ps ! k" "dragLoop d ps [0..<k] pos"] by simp
qed

lemma panelsOverlap_rect:
  "posX a = posX a' \<Longrightarrow> posY a = posY a' \<Longrightarrow> width a = width a' \<Longrightarrow> height a = height a' \<Longrightarrow>
   panelsOverlap a b = panelsOverlap a' b"
  by (simp add: panelsOverlap_def)

lemma handleMouseMove_dragging:
  assumes "isDragging m" "editPlacementEnabled m" "dragPanel m = Some d" "d < length (panels m)"
    and "dragLoop d (panels m) [0..<length (panels m)] (dragStart m pointer) = (x, y)"
  shows "panels (handleMouseMove m pointer) =
           (panels m)[d := (panels m ! d)\<lparr>posX := max 0 x, posY := max 0 y\<rparr>]"
  using assms by (simp add: handleMouseMove_def)

text \<open>
  Claim C2, amended. Take a drag step from a configuration in which no two panels other
  than the dragged one overlap, and whose final clamp leaves the pushed-out position
  \<open>(x, y)\<close> unchanged. Then the other panels are untouched, and two panels do not
  overlap afterwards unless one is the dragged panel and the other a panel after whose
  evaluation the loop moved the candidate position again: the dragged panel is clear of the
  panel of the last push-out and of every panel evaluated after it.
\<close>

theorem drag_step_last_neighbour:
  assumes "isDragging m" "editPlacementEnabled m" "dragPanel m = Some d" "d < length (panels m)"
    and others: "\<forall>i<length (panels m). \<forall>j<length (panels m).
                   i \<noteq> j \<and> i \<noteq> d \<and> j \<noteq> d \<longrightarrow> \<not> panelsOverlap (panels m ! i) (panels m ! j)"
    and final: "dragLoop d (panels m) [0..<length (panels m)] (dragStart m pointer) = (x, y)"
    and inside: "0 \<le> x" "0 \<le> y"
  shows "length (panels (handleMouseMove m pointer)) = length (panels m) \<and>
         (\<forall>k<length (panels m). k \<noteq> d \<longrightarrow> panels (handleMouseMove m pointer) ! k = panels m ! k) \<and>
         (\<forall>i<length (panels m). \<forall>j<length (panels m).
            i \<noteq> j \<and>
            (i = d \<longrightarrow> dragLoop d (panels m) [0..<Suc j] (dragStart m pointer) = (x, y)) \<and>
            (j = d \<longrightarrow> dragLoop d (panels m) [0..<Suc i] (dragStart m pointer) = (x, y)) \<longrightarrow>
            \<not> panelsOverlap (panels (handleMouseMove m pointer) ! i)
                             (panels (handleMouseMove m pointer) ! j))"
proof -
  let ?ps = "panels m" and ?ps' = "panels (handleMouseMove m pointer)"
  let ?start = "dragStart m pointer"
  have ps': "?ps' = ?ps[d := (?ps ! d)\<lparr>posX := x, posY := y\<rparr>]"
    using handleMouseMove_dragging [OF assms(1-4) final] inside by simp
  have len: "length ?ps' = length ?ps" by (simp add: ps')
  have same: "?ps' ! k = ?ps ! k" if "k \<noteq> d" for k
    using that by (simp add: ps')
  have dragged: "?ps' ! d = (?ps ! d)\<lparr>posX := x, posY := y\<rparr>"
    using assms(4) by (simp add: ps')
  have clear: "\<not> panelsOverlap (?ps' ! d) (?ps ! k)"
    if "k \<noteq> d" "dragLoop d ?ps [0..<Suc k] ?start = (x, y)" for k
  proof -
    have "\<not> panelsOverlap
           \<lparr>posX = x, posY = y, width = width (?ps ! d), height = height (?ps ! d)\<rparr> (?ps ! k)"
      using dragLoop_clear [OF that(1), of ?ps ?start] that(2) by simp
    moreover have "panelsOverlap (?ps' ! d) (?ps ! k) =
        panelsOverlap \<lparr>posX = x, posY = y, width = width (?ps ! d), height = height (?ps ! d)\<rparr>
          (?ps ! k)"
      by (rule panelsOverlap_rect) (simp_all add: dragged)
    ultimately show ?thesis by simp
  qed
  have apart: "\<not> panelsOverlap (?ps' ! i) (?ps' ! j)"
    if ij: "i < length ?ps" "j < length ?ps" "i \<noteq> j"
      and fi: "i = d \<longrightarrow> dragLoop d ?ps [0..<Suc j] ?start = (x, y)"
      and fj: "j = d \<longrightarrow> dragLoop d ?ps [0..<Suc i] ?start = (x, y)" for i j
  proof (cases "i = d")
    case True
    then have "j \<noteq> d" using ij by simp
    then show ?thesis using True fi clear [of j] same [of j] by simp
  next
    case False
    show ?thesis
    proof (cases "j = d")
      case True
      then have "\<not> panelsOverlap (?ps' ! d) (?ps ! i)" using False fj clear [of i] by simp
      then show ?thesis using True same [OF False] by (simp add: panelsOverlap_sym [of "?ps ! i"])
    next
      case jd: False
      then show ?thesis using False ij others same by simp
    qed
  qed
  show ?thesis using len same apart by blast
qed

theorem drag_step_last_neighbour_witness:
  "isDragging dragScene3 \<and> editPlacementEnabled dragScene3 \<and> dragPanel dragScene3 = Some 0 \<and>
   0 < length (panels dragScene3) \<and> 2 < length (panels dragScene3) \<and>
   \<not> panelsOverlap (panels dragScene3 ! 1) (panels dragScene3 ! 2) \<and>
   dragLoop 0 (panels dragScene3) [0..<length (panels dragScene3)] (dragStart dragScene3 (25, 300))
     = (15, 325) \<and>
   dragLoop 0 (panels dragScene3) [0..<Suc 2] (dragStart dragScene3 (25, 300)) = (15, 325) \<and>
   \<not> panelsOverlap (panels (handleMouseMove dragScene3 (25, 300)) ! 0)
                    (panels (handleMouseMove dragScene3 (25, 300)) ! 2)"
proof -
  have st: "isDragging dragScene3" "editPlacementEnabled dragScene3" "dragPanel dragScene3 = Some 0"
    "0 < length (panels dragScene3)"
    by code_simp+
  have len: "length (panels dragScene3) = 3"
    by code_simp
  have "pairwiseApart (panels dragScene3)" by code_simp
  then have others: "\<forall>i<length (panels dragScene3). \<forall>j<length (panels dragScene3).
      i \<noteq> j \<and> i \<noteq> 0 \<and> j \<noteq> 0 \<longrightarrow> \<not> panelsOverlap (panels dragScene3 ! i) (panels dragScene3 ! j)"
    by (simp add: pairwiseApart_def)
  have final: "dragLoop 0 (panels dragScene3) [0..<length (panels dragScene3)]
                 (dragStart dragScene3 (25, 300)) = (15, 325)"
    by code_simp
  have last: "dragLoop 0 (panels dragScene3) [0..<Suc 2] (dragStart dragScene3 (25, 300)) = (15, 325)"
    by code_simp
  have o12: "\<not> panelsOverlap (panels dragScene3 ! 1) (panels dragScene3 ! 2)"
    by code_simp
  have "(0::real) \<le> 15" "(0::real) \<le> 325" by simp_all
  note step = drag_step_last_neighbour [OF st others final this]
  have concl: "\<not> panelsOverlap (panels (handleMouseMove dragScene3 (25, 300)) ! 0)
                    (panels (handleMouseMove dragScene3 (25, 300)) ! 2)"
  proof (rule step [THEN conjunct2, THEN conjunct2, rule_format, of 0 2])
    show "0 < length (panels dragScene3)" "2 < length (panels dragScene3)"
      by (simp_all add: len)
    show "(0::nat) \<noteq> 2 \<and>
        (0 = (0::nat) \<longrightarrow> dragLoop 0 (panels dragScene3) [0..<Suc 2] (dragStart dragScene3 (25, 300)) = (15, 325)) \<and>
        (2 = (0::nat) \<longrightarrow> dragLoop 0 (panels dragScene3) [0..<Suc 0] (dragStart dragScene3 (25, 300)) = (15, 325))"
      using last by simp
  qed
  show ?thesis using st o12 final last concl by (simp add: len)
qed

theorem drag_step_overlap_counterexample:
  "pairwiseApart (panels dragScene) \<and>
   map (\<lambda>p. (posX p, posY p, width p, height p)) (panels (handleMouseMove dragScene (0, 150))) =
     [(2, 150, 80, 120), (0, 150, 80, 120)] \<and>
   panelsOverlap (panels (handleMouseMove dragScene (0, 150)) ! 0)
                 (panels (handleMouseMove dragScene (0, 150)) ! 1) \<and>
   pairwiseApart (panels dragScene3) \<and>
   map (\<lambda>p. (posX p, posY p, width p, height p)) (panels (handleMouseMove dragScene3 (25, 200))) =
     [(86, 200, 80, 120), (100, 200, 80, 120), (1, 200, 80, 120)] \<and>
   panelsOverlap (panels (handleMouseMove dragScene3 (25, 200)) ! 0)
                 (panels (handleMouseMove dragScene3 (25, 200)) ! 1)"
  by code_simp

subsection \<open>The panel sets the monitor holds are exportable\<close>

text \<open>Whatever the configuration and the response, the panels after \<open>loadPanelLayout\<close>
  are there, with non-empty ids and non-zero dimensions, and a pointer-move keeps that.\<close>

lemma exportable_unplaced:
  assumes "map unplaced qs = map unplaced ps" "exportable ps"
  shows "exportable qs"
proof -
  have "length (map unplaced qs) = length (map unplaced ps)" using assms(1) by simp
  then have len: "length qs = length ps" by simp
  have "panelId q \<noteq> [] \<and> width q \<noteq> 0 \<and> height q \<noteq> 0" if "q \<in> set qs" for q
  proof -
    from that obtain i where i: "i < length qs" "qs ! i = q" by (auto simp: in_set_conv_nth)
    have "map unplaced qs ! i = map unplaced ps ! i" using assms(1) by simp
    then have "unplaced q = unplaced (ps ! i)" using i len by simp
    moreover have "ps ! i \<in> set ps" using i len by simp
    ultimately show ?thesis using assms(2) unplaced_eq_fields [of q "ps ! i"]
      by (simp add: exportable_def)
  qed
  moreover have "qs \<noteq> []" using len assms(2) by (auto simp: exportable_def)
  ultimately show ?thesis by (simp add: exportable_def)
qed

lemma orStrDefault_nonempty: "d \<noteq> [] \<Longrightarrow> orStrDefault a d \<noteq> []"
  by (simp add: orStrDefault_def split: option.splits)

lemma orNumDefault_nonzero: "d \<noteq> 0 \<Longrightarrow> orNumDefault a d \<noteq> 0"
  by (simp add: orNumDefault_def split: option.splits)

lemma normalizePanel_exportable:
  "panelId (normalizePanel yOff r i) \<noteq> [] \<and> width (normalizePanel yOff r i) \<noteq> 0 \<and>
   height (normalizePanel yOff r i) \<noteq> 0"
proof -
  have w: "orNumDefault (raw_width r) 80 \<noteq> 0" and h: "orNumDefault (raw_height r) 120 \<noteq> 0"
    by (simp_all add: orNumDefault_nonzero)
  then have "max (orNumDefault (raw_width r) 80) (orNumDefault (raw_height r) 120) \<noteq> 0"
    by (simp add: max_def)
  then show ?thesis using w h
    by (simp add: normalizePanel_def Let_def orStrDefault_nonempty split: prod.splits)
qed

lemma normalizePanels_exportable: "raws \<noteq> [] \<Longrightarrow> exportable (normalizePanels raws)"
  by (auto simp: exportable_def normalizePanels_def normalizePanel_exportable)

lemma loadLocalLayout_exportable: "l \<noteq> [] \<Longrightarrow> exportable (loadLocalLayout l)"
  by (auto simp: exportable_def loadLocalLayout_def loadLocalPanel_def orStrDefault_nonempty
      orNumDefault_nonzero)

lemma createDefaultPanels_exportable: "exportable createDefaultPanels"
  by (auto simp: exportable_def createDefaultPanels_nonempty createDefaultPanels_def
      defaultPanel_def Let_def)

lemma resolveOverlaps_exportable: "exportable ps \<Longrightarrow> exportable (resolveOverlaps ps)"
  using resolveOverlaps_unplaced by (rule exportable_unplaced)

lemma loadPanelLayout_exportable: "exportable (panels (loadPanelLayout localLayout response m))"
proof -
  have fin: "exportable (resolveOverlaps (if ps = [] then createDefaultPanels else ps))"
    if "ps \<noteq> [] \<Longrightarrow> exportable ps" for ps
    using that by (simp add: resolveOverlaps_exportable createDefaultPanels_exportable)
  have api: "exportable (resolveOverlaps (if normalizePanels raws = [] then createDefaultPanels
                                           else normalizePanels raws))" for raws
  proof (rule fin)
    assume "normalizePanels raws \<noteq> []"
    then have "raws \<noteq> []" by (auto simp: normalizePanels_def)
    then show "exportable (normalizePanels raws)" by (rule normalizePanels_exportable)
  qed
  have loc: "exportable (resolveOverlaps (if loadLocalLayout l = [] then createDefaultPanels
                                           else loadLocalLayout l))" for l
  proof (rule fin)
    assume "loadLocalLayout l \<noteq> []"
    then have "l \<noteq> []" by (auto simp: loadLocalLayout_def)
    then show "exportable (loadLocalLayout l)" by (rule loadLocalLayout_exportable)
  qed
  have failed: "exportable (resolveOverlaps createDefaultPanels)"
    by (simp add: resolveOverlaps_exportable createDefaultPanels_exportable)
  have remote: "exportable (panels (loadPanelLayout None response m))"
    by (cases response) (simp_all add: loadPanelLayout_def defaultMaxPower_def api failed)
  show ?thesis
  proof (cases localLayout)
    case None
    then show ?thesis using remote by simp
  next
    case (Some l)
    show ?thesis
    proof (cases l)
      case Nil
      have "loadPanelLayout (Some []) response m = loadPanelLayout None response m"
        by (simp add: loadPanelLayout_def)
      then show ?thesis using Some Nil remote by simp
    next
      case (Cons a as)
      then show ?thesis
        using Some loc [of "a # as"] by (simp add: loadPanelLayout_def defaultMaxPower_def)
    qed
  qed
qed

lemma handleMouseMove_exportable:
  assumes "exportable (panels m)"
  shows "exportable (panels (handleMouseMove m pointer))"
proof -
  have "map unplaced (ps[d := (ps ! d)\<lparr>posX := a, posY := b\<rparr>]) = map unplaced ps"
    for ps :: "panel list" and d a b
    by (rule map_update_same) (simp add: unplaced_def)
  then have "map unplaced (panels (handleMouseMove m pointer)) = map unplaced (panels m)"
    by (auto simp: handleMouseMove_def handleMouseUp_def split: option.splits prod.splits)
  then show ?thesis using assms by (rule exportable_unplaced)
qed

subsection \<open>Export and reload\<close>









end
